theory Spec2Isabelle
  imports Complex_Main "HOL-Library.AList" "HOL-Library.Product_Lexorder"
begin

section \<open>Constants of app/main.py\<close>

definition CACHE_SIZE_LIMIT :: nat where "CACHE_SIZE_LIMIT = 10"
definition JOBS_SIZE_LIMIT :: nat where "JOBS_SIZE_LIMIT = 20"
definition RENDER_LIMIT_ETH :: nat where "RENDER_LIMIT_ETH = 2000"
definition PREVIEW_LIMIT :: nat where "PREVIEW_LIMIT = 200"
definition MAX_RECORDS_PER_QUERY :: int where "MAX_RECORDS_PER_QUERY = 10000"
definition MIN_WINDOW_BLOCKS :: int where "MIN_WINDOW_BLOCKS = 1"
definition MAX_WINDOW_BLOCKS :: int where "MAX_WINDOW_BLOCKS = 200000"
definition SAFETY_MAX_SEGMENTS :: int where "SAFETY_MAX_SEGMENTS = 5000"

section \<open>Records, exceptions and the outside world\<close>

text \<open>
  A transaction is the JSON object the upstream returns. The crawler reads three of its
  keys with \<^verbatim>\<open>tx.get\<close>: \<open>hash\<close>, \<open>blockNumber\<close> and \<open>timeStamp\<close>; \<open>None\<close> is a
  missing key. Everything else the object carries is \<open>payload\<close>.
\<close>

record tx =
  tx_hash :: "string option"
  blockNumber :: "string option"
  timeStamp :: "string option"
  payload :: string

text \<open>
  Exceptions. \<open>RuntimeError\<close> and \<open>HTTPError\<close> are the two classes the Etherscan client
  raises; \<open>ZeroDivisionError\<close> comes from \<^verbatim>\<open>MAX_RECORDS_PER_QUERY / page_size\<close>;
  \<open>PyError\<close> is any other exception. \<open>str_of\<close> is Python's \<^verbatim>\<open>str(e)\<close>.
\<close>

datatype exn =
    RuntimeError string
  | HTTPError int string
  | ZeroDivisionError
  | PyError string

fun str_of :: "exn \<Rightarrow> string" where
  "str_of (RuntimeError m) = m"
| "str_of (HTTPError c m) = m"
| "str_of ZeroDivisionError = ''division by zero''"
| "str_of (PyError m) = m"

text \<open>
  What a run sees of the outside. Every interaction (a page request, a read of the shared
  stop flag) happens at a tick of \<open>clock\<close>, and the answer may depend on the tick, so the
  upstream and the stop flag are arbitrary and may change over time.
  \<^item> \<open>get_latest_block\<close>: the answer of \<^verbatim>\<open>client.get_latest_block()\<close>;
  \<^item> \<open>txlist_page\<close>: the answer of \<^verbatim>\<open>client.txlist_page(address, start, end, page, offset)\<close>;
  \<^item> \<open>stop_requested_at\<close>: the value of \<^verbatim>\<open>job["stop_requested"]\<close>, which the
    \<^verbatim>\<open>/crawl_stop\<close> endpoint writes from another thread;
  \<^item> \<open>py_int\<close>: Python's builtin \<^verbatim>\<open>int(s)\<close> on a string, \<open>Inl\<close> the message of its
    ValueError;
  \<^item> \<open>format_transaction\<close>: the display formatting of a record (dates and floats),
    which may raise.
\<close>

type_synonym formatted = string

record env =
  get_latest_block :: "exn + int"
  txlist_page :: "nat \<Rightarrow> string \<Rightarrow> int \<Rightarrow> int \<Rightarrow> int \<Rightarrow> int \<Rightarrow> exn + tx list"
  stop_requested_at :: "nat \<Rightarrow> bool"
  py_int :: "string \<Rightarrow> string + int"
  format_transaction :: "tx \<Rightarrow> string \<Rightarrow> exn + formatted"

text \<open>A page request as sent: start block, end block, page, offset.\<close>

record page_request =
  rq_start :: int
  rq_end :: int
  rq_page :: int
  rq_offset :: int

text \<open>
  The record of a run's dealings with the outside: the tick, the page requests sent so
  far, and the records of the windows that were drained in full and merged into the
  job (\<open>merged\<close> is a history kept for the statements; the program has no such list).
\<close>

record world =
  clock :: nat
  requests :: "page_request list"
  merged :: "tx list"

section \<open>fetch_txlist_window\<close>

text \<open>The tuple \<^verbatim>\<open>fetch_txlist_window\<close> returns, field by field.\<close>

record window_result =
  txs_list :: "tx list"
  pages_used :: int
  cap_hit :: bool
  truncated :: bool
  paused_hit :: bool
  cap_unresolvable :: bool

text \<open>The arguments of \<^verbatim>\<open>fetch_txlist_window\<close>. \<open>should_stop\<close> is the optional callback.\<close>

record fetch_args =
  fa_address :: string
  start_blk :: int
  end_blk :: int
  fa_page_size :: int
  fa_pages_total :: int
  fa_max_pages_int :: "int option"
  should_stop :: "(nat \<Rightarrow> bool) option"
  min_window_blocks :: int

text \<open>
  \<^verbatim>\<open>math.ceil(MAX_RECORDS_PER_QUERY / page_size)\<close>. The quotient is a float in Python;
  its ceiling is the integer ceiling, written here with floor division. A zero page size
  raises before the loop starts.
\<close>

definition max_pages_for_offset :: "int \<Rightarrow> int" where
  "max_pages_for_offset ps = - ((- MAX_RECORDS_PER_QUERY) div ps)"

text \<open>\<^verbatim>\<open>should_stop and should_stop()\<close>: the callback, when there is one, reads the flag.\<close>

definition poll_stop :: "(nat \<Rightarrow> bool) option \<Rightarrow> world \<Rightarrow> bool \<times> world" where
  "poll_stop cb w =
     (case cb of
        None \<Rightarrow> (False, w)
      | Some f \<Rightarrow> (f (clock w), w\<lparr>clock := Suc (clock w)\<rparr>))"

definition send_request :: "fetch_args \<Rightarrow> int \<Rightarrow> world \<Rightarrow> world" where
  "send_request a page w =
     w\<lparr>clock := Suc (clock w),
       requests := requests w @
         [\<lparr>rq_start = start_blk a, rq_end = end_blk a, rq_page = page,
           rq_offset = fa_page_size a\<rparr>]\<rparr>"

definition window_return ::
  "tx list \<Rightarrow> int \<Rightarrow> bool \<Rightarrow> bool \<Rightarrow> bool \<Rightarrow> bool \<Rightarrow> window_result" where
  "window_return c p ch tr ph cu =
     \<lparr>txs_list = c, pages_used = p, cap_hit = ch, truncated = tr, paused_hit = ph,
      cap_unresolvable = cu\<rparr>"

text \<open>
  One pass through the body of \<^verbatim>\<open>while True\<close>, from the loop variables
  \<open>(collected, current_page)\<close>: \<open>Inl\<close> is the state the next pass starts from, \<open>Inr\<close> is
  a \<^verbatim>\<open>break\<close> (with the tuple returned) or an exception of the client.
\<close>

definition fetch_page ::
  "env \<Rightarrow> fetch_args \<Rightarrow> tx list \<times> int \<times> world \<Rightarrow>
     (tx list \<times> int \<times> world) + ((exn + window_result) \<times> world)" where
  "fetch_page e a s =
     (case s of (collected, current_page, w) \<Rightarrow>
      (case poll_stop (should_stop a) w of (stop1, w1) \<Rightarrow>
        if stop1 then
          Inr (Inr (window_return collected current_page False False True False), w1)
        else if (case fa_max_pages_int a of None \<Rightarrow> False
                 | Some m \<Rightarrow> fa_pages_total a + current_page > m) then
          Inr (Inr (window_return collected current_page False True False False), w1)
        else
          (case txlist_page e (clock w1) (fa_address a) (start_blk a) (end_blk a)
                  current_page (fa_page_size a) of
             Inl x \<Rightarrow> Inr (Inl x, send_request a current_page w1)
           | Inr chunk \<Rightarrow>
              (case poll_stop (should_stop a) (send_request a current_page w1) of
                 (stop2, w2) \<Rightarrow>
                   if stop2 then
                     Inr (Inr (window_return (collected @ chunk) current_page
                                 False False True False), w2)
                   else if int (length chunk) < fa_page_size a then
                     Inr (Inr (window_return (collected @ chunk) current_page
                                 False False False False), w2)
                   else if (current_page + 1 > max_pages_for_offset (fa_page_size a)
                              \<and> int (length chunk) = fa_page_size a)
                           \<or> int (length (collected @ chunk)) \<ge> MAX_RECORDS_PER_QUERY then
                     Inr (Inr (window_return (collected @ chunk) (current_page + 1)
                                 True False False
                                 (end_blk a - start_blk a + 1 \<le> min_window_blocks a)), w2)
                   else Inl (collected @ chunk, current_page + 1, w2)))))"

text \<open>
  The loop. It need not end: with a negative page size no page is ever short, and an
  upstream that keeps answering with empty pages keeps it running. \<open>None\<close> is that.
\<close>

partial_function (option) fetch_loop ::
  "env \<Rightarrow> fetch_args \<Rightarrow> tx list \<times> int \<times> world \<Rightarrow> ((exn + window_result) \<times> world) option"
where
  "fetch_loop e a s =
     (case fetch_page e a s of
        Inl s' \<Rightarrow> fetch_loop e a s'
      | Inr out \<Rightarrow> Some out)"

definition fetch_txlist_window ::
  "env \<Rightarrow> fetch_args \<Rightarrow> world \<Rightarrow> ((exn + window_result) \<times> world) option" where
  "fetch_txlist_window e a w =
     (if fa_page_size a = 0 then Some (Inl ZeroDivisionError, w)
      else fetch_loop e a ([], 1, w))"

section \<open>Jobs, segments, results and the two registries\<close>

text \<open>A segment as \<^verbatim>\<open>run_job\<close> appends it: the keys start, end, pages, tx_count, cap_hit.\<close>

record segment =
  sg_start :: int
  sg_end :: int
  sg_pages :: int
  sg_tx_count :: int
  sg_cap_hit :: bool

text \<open>
  The job dictionary, key by key as \<^verbatim>\<open>crawl_all_start\<close> creates it (\<open>done\<close> is a keyword
  here, so the key is \<open>done_flag\<close>). The two deduplication dictionaries are association
  lists: Python dictionaries keep insertion order, and \<^verbatim>\<open>values()\<close> follows it. The keys
  \<open>high_activity\<close>, \<open>high_activity_reason\<close> and \<open>segments_tail\<close> appear only later; they
  are read with the defaults written here.
\<close>

record job =
  address :: string
  start_block :: int
  include_tokens :: bool
  page_size :: int
  max_pages_int :: "int option"
  latest_block :: "int option"
  seg_start :: int
  window_blocks :: int
  pages_total :: int
  segments_done :: int
  eth_total_unique :: int
  current_segment_start :: "int option"
  current_segment_end :: "int option"
  coverage_start :: int
  coverage_end :: "int option"
  stop_requested :: bool
  running :: bool
  done_flag :: bool
  paused :: bool
  error :: "string option"
  rid :: "string option"
  seen_hashes :: "(string \<times> tx) list"
  segments :: "segment list"
  partial_preview_eth :: "tx list"
  eth_preview :: "formatted list"
  token_seen_hashes :: "(string \<times> tx) list"
  token_preview :: "formatted list"
  high_activity :: bool
  high_activity_reason :: string
  segments_tail :: "segment list"

text \<open>An entry of \<^verbatim>\<open>RESULTS_CACHE\<close>.\<close>

record result =
  eth_txs :: "tx list"
  r_address :: string
  r_start_block :: int
  r_latest_block :: int
  eth_total :: int
  r_coverage_start :: int
  r_coverage_end :: int
  r_segments :: "segment list"
  r_include_tokens :: bool
  token_txs :: "tx list option"

text \<open>The module-level registries.\<close>

record store =
  JOBS :: "string \<rightharpoonup> job"
  JOB_IDS :: "string list"
  RESULTS_CACHE :: "string \<rightharpoonup> result"
  RESULT_IDS :: "string list"

definition empty_store :: store where
  "empty_store = \<lparr>JOBS = Map.empty, JOB_IDS = [], RESULTS_CACHE = Map.empty, RESULT_IDS = []\<rparr>"

subsection \<open>Decimal text of an integer, for the f-strings\<close>

fun digits :: "nat \<Rightarrow> string" where
  "digits n =
     (if n < 10 then [char_of (48 + n)]
      else digits (n div 10) @ [char_of (48 + n mod 10)])"

definition str_int :: "int \<Rightarrow> string" where
  "str_int i = (if i < 0 then CHR ''-'' # digits (nat (- i)) else digits (nat i))"

section \<open>crawl_all_start, crawl_stop, crawl_resume\<close>

text \<open>\<^verbatim>\<open>page_size = max(50, min(500, page_size))\<close>, in \<^verbatim>\<open>crawl_all_start\<close> and in \<^verbatim>\<open>crawl\<close>.\<close>

definition clamp_page_size :: "int \<Rightarrow> int" where
  "clamp_page_size ps = max 50 (min 500 ps)"

text \<open>The dictionary a new job starts as.\<close>

definition new_job :: "string \<Rightarrow> int \<Rightarrow> bool \<Rightarrow> int \<Rightarrow> int option \<Rightarrow> job" where
  "new_job addr sb it ps mp =
     \<lparr>address = addr, start_block = sb, include_tokens = it, page_size = ps,
      max_pages_int = mp, latest_block = None, seg_start = sb,
      window_blocks = MAX_WINDOW_BLOCKS, pages_total = 0, segments_done = 0,
      eth_total_unique = 0, current_segment_start = None, current_segment_end = None,
      coverage_start = sb, coverage_end = Some (sb - 1), stop_requested = False,
      running = False, done_flag = False, paused = False, error = None, rid = None,
      seen_hashes = [], segments = [], partial_preview_eth = [], eth_preview = [],
      token_seen_hashes = [], token_preview = [], high_activity = False,
      high_activity_reason = [], segments_tail = []\<rparr>"

text \<open>
  The registration under the lock: append the id, evict the head of \<^verbatim>\<open>JOB_IDS\<close> when the
  list is longer than the limit, then store the job.
\<close>

definition register_job :: "string \<Rightarrow> job \<Rightarrow> store \<Rightarrow> store" where
  "register_job job_id j s =
     (let ids = JOB_IDS s @ [job_id] in
      if length ids > JOBS_SIZE_LIMIT
      then s\<lparr>JOB_IDS := tl ids, JOBS := ((JOBS s)(hd ids := None))(job_id \<mapsto> j)\<rparr>
      else s\<lparr>JOB_IDS := ids, JOBS := (JOBS s)(job_id \<mapsto> j)\<rparr>)"

text \<open>
  \<^verbatim>\<open>max_pages\<close> arrives as an optional string; \<open>strip\<close> is Python's \<^verbatim>\<open>str.strip\<close>, a
  parameter like \<open>py_int\<close>. \<open>Inl\<close> is the message the error page shows.
\<close>

definition parse_max_pages ::
  "env \<Rightarrow> (string \<Rightarrow> string) \<Rightarrow> string option \<Rightarrow> string + int option" where
  "parse_max_pages e strip max_pages =
     (case max_pages of
        None \<Rightarrow> Inr None
      | Some m \<Rightarrow>
          if strip m = [] then Inr None
          else (case py_int e (strip m) of
                  Inl _ \<Rightarrow> Inl ''max_pages must be a valid number''
                | Inr n \<Rightarrow> if n < 1 then Inl ''max_pages must be >= 1'' else Inr (Some n)))"

text \<open>
  \<^verbatim>\<open>crawl_all_start\<close>. \<open>client_ok\<close> says whether the API key is configured; \<open>job_id\<close> is
  the fresh \<^verbatim>\<open>uuid4\<close> prefix. \<open>Inl\<close> is the error shown, \<open>Inr\<close> the store with the job in
  it (the background thread then runs \<^verbatim>\<open>run_job\<close>).
\<close>

definition crawl_all_start ::
  "env \<Rightarrow> (string \<Rightarrow> string) \<Rightarrow> bool \<Rightarrow> string \<Rightarrow> string \<Rightarrow> int \<Rightarrow> bool \<Rightarrow> string option
     \<Rightarrow> int \<Rightarrow> store \<Rightarrow> string + store" where
  "crawl_all_start e strip client_ok job_id addr sb it max_pages ps s =
     (if take 2 addr \<noteq> ''0x'' then Inl ''Invalid Ethereum address. Must start with 0x.''
      else if sb < 0 then Inl ''Start block must be non-negative.''
      else if \<not> client_ok then
        Inl ''Etherscan API key not configured. Please check .env file.''
      else (case parse_max_pages e strip max_pages of
              Inl msg \<Rightarrow> Inl msg
            | Inr mp \<Rightarrow>
                Inr (register_job job_id (new_job addr sb it (clamp_page_size ps) mp) s)))"

text \<open>The JSON answers of the two endpoints are a message and an HTTP status.\<close>

definition crawl_stop :: "string \<Rightarrow> store \<Rightarrow> (string \<times> int) + store" where
  "crawl_stop job_id s =
     (case JOBS s job_id of
        None \<Rightarrow> Inl (''Job not found'', 404)
      | Some j \<Rightarrow> Inr (s\<lparr>JOBS := (JOBS s)(job_id \<mapsto> j\<lparr>stop_requested := True\<rparr>)\<rparr>))"

definition resume_job :: "job \<Rightarrow> job" where
  "resume_job j =
     (let j1 = j\<lparr>paused := False, stop_requested := False, running := True, error := None\<rparr>
      in case coverage_end j1 of
           Some ce \<Rightarrow> j1\<lparr>seg_start := ce + 1\<rparr>
         | None \<Rightarrow> j1)"

definition crawl_resume :: "string \<Rightarrow> store \<Rightarrow> (string \<times> int) + store" where
  "crawl_resume job_id s =
     (case JOBS s job_id of
        None \<Rightarrow> Inl (''Job not found'', 404)
      | Some j \<Rightarrow>
          if \<not> paused j then Inl (''Job is not paused'', 400)
          else if running j then Inl (''Job is already running'', 400)
          else if done_flag j then Inl (''Job is already done'', 400)
          else Inr (s\<lparr>JOBS := (JOBS s)(job_id \<mapsto> resume_job j)\<rparr>))"

section \<open>run_job\<close>

text \<open>
  The local variables of \<^verbatim>\<open>run_job\<close> beside the job itself. \<^verbatim>\<open>all_txs_raw_dict\<close> and
  \<^verbatim>\<open>segments\<close> are references into the job, so they live in \<open>rjob\<close>; the four counters
  are copies, written back to the job only where the code does so.
\<close>

record run_state =
  rjob :: job
  l_pages_total :: int
  l_window_blocks :: int
  l_seg_start :: int
  segment_num :: int
  wld :: world

text \<open>How control leaves the \<^verbatim>\<open>while\<close> loop.\<close>

datatype loop_exit =
    Exhausted
  | Paused
  | SafetyAbort
  | BudgetStop
  | CapUnresolvable
  | CapAtMinimum
  | Raised exn

text \<open>The deduplication loop: a record with no hash, or an empty one, is skipped.\<close>

fun merge_txs :: "(string \<times> tx) list \<Rightarrow> tx list \<Rightarrow> (string \<times> tx) list" where
  "merge_txs d [] = d"
| "merge_txs d (t # ts) =
     merge_txs (case tx_hash t of
                  None \<Rightarrow> d
                | Some h \<Rightarrow> if h = [] then d else AList.update h t d) ts"

text \<open>The raw preview: append until \<^verbatim>\<open>RENDER_LIMIT_ETH\<close> rows are held, then stop.\<close>

fun extend_preview :: "tx list \<Rightarrow> tx list \<Rightarrow> tx list" where
  "extend_preview pv [] = pv"
| "extend_preview pv (t # ts) =
     (if length pv < RENDER_LIMIT_ETH then extend_preview (pv @ [t]) ts else pv)"

text \<open>
  The formatted preview: the list is the job's own object, so the rows appended before
  a formatting exception stay in it. The result is the exception, if any, and the list.
\<close>

fun format_preview ::
  "env \<Rightarrow> string \<Rightarrow> formatted list \<Rightarrow> tx list \<Rightarrow> exn option \<times> formatted list" where
  "format_preview e addr fp [] = (None, fp)"
| "format_preview e addr fp (t # ts) =
     (case format_transaction e t addr of
        Inl x \<Rightarrow> (Some x, fp)
      | Inr f \<Rightarrow>
          format_preview e addr
            (if length (fp @ [f]) > PREVIEW_LIMIT then tl (fp @ [f]) else fp @ [f]) ts)"

text \<open>The state saved when the run pauses (the same block at both pause points).\<close>

definition pause_job :: "run_state \<Rightarrow> job" where
  "pause_job s =
     (let j = (rjob s)\<lparr>running := False, done_flag := False, paused := True,
                 stop_requested := False, error := None,
                 seg_start := l_seg_start s, window_blocks := l_window_blocks s,
                 pages_total := l_pages_total s, segments_done := segment_num s\<rparr>
      in if segments j = [] then j else j\<lparr>coverage_end := Some (sg_end (last (segments j)))\<rparr>)"

definition fail_job :: "string \<Rightarrow> job \<Rightarrow> job" where
  "fail_job msg j = j\<lparr>running := False, done_flag := True, error := Some msg\<rparr>"

definition flag_window :: "int \<Rightarrow> job \<Rightarrow> job" where
  "flag_window wb j =
     (if wb \<le> 1000 \<and> \<not> high_activity j
      then j\<lparr>high_activity := True,
             high_activity_reason :=
               ''Window reduced to '' @ str_int wb @ '' blocks due to Etherscan cap''\<rparr>
      else j)"

definition flag_segments :: "int \<Rightarrow> job \<Rightarrow> job" where
  "flag_segments n j =
     (if n \<ge> 2000 \<and> \<not> high_activity j
      then j\<lparr>high_activity := True,
             high_activity_reason :=
               ''Segments exceeded 2000 (currently '' @ str_int n @ '')''\<rparr>
      else j)"

definition window_args :: "env \<Rightarrow> job \<Rightarrow> int \<Rightarrow> int \<Rightarrow> int \<Rightarrow> fetch_args" where
  "window_args e j sstart send ptotal =
     \<lparr>fa_address = address j, start_blk = sstart, end_blk = send,
      fa_page_size = page_size j, fa_pages_total = ptotal,
      fa_max_pages_int = max_pages_int j, should_stop = Some (stop_requested_at e),
      min_window_blocks = MIN_WINDOW_BLOCKS\<rparr>"

text \<open>
  The part of the loop body after a full, successful drain of \<open>[seg_start, seg_end]\<close>,
  in three steps. First the job once the records are merged, the segment is appended and
  the raw preview is extended (\<open>s\<close> already holds the incremented \<open>segment_num\<close> and the
  new \<open>pages_total\<close>).
\<close>

definition merged_job :: "int \<Rightarrow> window_result \<Rightarrow> run_state \<Rightarrow> job" where
  "merged_job seg_end r s =
     (rjob s)\<lparr>seen_hashes := merge_txs (seen_hashes (rjob s)) (txs_list r),
              segments := segments (rjob s) @
                [\<lparr>sg_start = l_seg_start s, sg_end = seg_end, sg_pages = pages_used r,
                  sg_tx_count = int (length (txs_list r)), sg_cap_hit = False\<rparr>],
              partial_preview_eth :=
                extend_preview (partial_preview_eth (rjob s)) (txs_list r)\<rparr>"

text \<open>Then the job once the formatted preview \<open>fp\<close> and the progress are stored.\<close>

definition saved_job :: "int \<Rightarrow> window_result \<Rightarrow> formatted list \<Rightarrow> run_state \<Rightarrow> job" where
  "saved_job seg_end r fp s =
     (let j1 = merged_job seg_end r s in
      j1\<lparr>eth_preview := fp, seg_start := seg_end + 1,
         segments_done := segment_num s, pages_total := l_pages_total s,
         eth_total_unique := int (length (seen_hashes j1)),
         current_segment_start := Some (l_seg_start s),
         current_segment_end := Some seg_end,
         window_blocks := l_window_blocks s,
         coverage_end := Some seg_end,
         segments_tail := (if length (segments j1) > 10
                           then drop (length (segments j1) - 10) (segments j1)
                           else segments j1)\<rparr>)"

text \<open>
  Last the high-activity flags, the move to the next segment and the growth of the
  window. A formatting exception leaves after the merge, with the preview as far as it
  got.
\<close>

definition complete_segment ::
  "env \<Rightarrow> int \<Rightarrow> window_result \<Rightarrow> run_state \<Rightarrow> run_state + (loop_exit \<times> run_state)" where
  "complete_segment e seg_end r s =
     (case format_preview e (address (rjob s)) (eth_preview (rjob s)) (txs_list r) of
        (Some x, fp) \<Rightarrow>
          Inr (Raised x, s\<lparr>rjob := (merged_job seg_end r s)\<lparr>eth_preview := fp\<rparr>,
                           wld := (wld s)\<lparr>merged := merged (wld s) @ txs_list r\<rparr>\<rparr>)
      | (None, fp) \<Rightarrow>
          Inl (s\<lparr>rjob := flag_window (l_window_blocks s)
                           (flag_segments (segment_num s) (saved_job seg_end r fp s)),
                l_seg_start := seg_end + 1,
                wld := (wld s)\<lparr>merged := merged (wld s) @ txs_list r\<rparr>,
                l_window_blocks :=
                  (if l_window_blocks s < MAX_WINDOW_BLOCKS
                   then min (l_window_blocks s * 2) MAX_WINDOW_BLOCKS
                   else l_window_blocks s)\<rparr>))"

text \<open>
  What the loop does with the tuple \<^verbatim>\<open>fetch_txlist_window\<close> returned, in the order of
  the code: pause, page budget, cap, success.
\<close>

definition after_fetch ::
  "env \<Rightarrow> int \<Rightarrow> window_result \<Rightarrow> run_state \<Rightarrow> run_state + (loop_exit \<times> run_state)" where
  "after_fetch e seg_end r s0 =
     (let s = s0\<lparr>l_pages_total := l_pages_total s0 + pages_used r\<rparr> in
      if paused_hit r then Inr (Paused, s\<lparr>rjob := pause_job s\<rparr>)
      else if truncated r then
        Inr (BudgetStop, s\<lparr>rjob := fail_job ''Stopped due to max_pages limit'' (rjob s)\<rparr>)
      else if cap_hit r then
        (if cap_unresolvable r then
           Inr (CapUnresolvable,
                s\<lparr>rjob := fail_job
                  (''Even a window of '' @ str_int (l_window_blocks s) @
                   '' block(s) exceeds Etherscan cap (~10,000 records). Cannot guarantee ALL results via Etherscan for this address in this range. Consider using a smaller start_block or switching to a node-based approach.'')
                  (rjob s)\<rparr>)
         else if l_window_blocks s > MIN_WINDOW_BLOCKS then
           (let wb = max (l_window_blocks s div 2) MIN_WINDOW_BLOCKS in
            Inl (s\<lparr>l_window_blocks := wb, segment_num := segment_num s - 1,
                   rjob := flag_window wb (rjob s)\<rparr>))
         else
           Inr (CapAtMinimum,
                s\<lparr>rjob := fail_job
                  (''Cap hit at minimum window size ('' @ str_int MIN_WINDOW_BLOCKS @
                   '' blocks). Cannot proceed.'') (rjob s)\<rparr>))
      else complete_segment e seg_end r s)"

text \<open>
  One pass of \<^verbatim>\<open>while seg_start <= latest_block\<close>, the loop test included: \<open>Inl\<close> is the
  state of the next pass, \<open>Inr\<close> the way out. \<open>None\<close> is a window fetch that never returns.
\<close>

definition crawl_step ::
  "env \<Rightarrow> int \<Rightarrow> run_state \<Rightarrow> (run_state + (loop_exit \<times> run_state)) option" where
  "crawl_step e latest s =
     (if \<not> l_seg_start s \<le> latest then Some (Inr (Exhausted, s))
      else
        (case poll_stop (Some (stop_requested_at e)) (wld s) of (stop, w1) \<Rightarrow>
           if stop then Some (Inr (Paused, s\<lparr>rjob := pause_job s, wld := w1\<rparr>))
           else
             (let seg_end = min (l_seg_start s + l_window_blocks s - 1) latest;
                  s1 = s\<lparr>segment_num := segment_num s + 1, wld := w1\<rparr>
              in if segment_num s1 > SAFETY_MAX_SEGMENTS then
                   Some (Inr (SafetyAbort,
                     s1\<lparr>rjob := fail_job
                       (''Safety limit reached: '' @ str_int SAFETY_MAX_SEGMENTS @
                        '' segments. Address may be too active for this range.'') (rjob s1)\<rparr>))
                 else
                   (case fetch_txlist_window e
                           (window_args e (rjob s1) (l_seg_start s1) seg_end (l_pages_total s1))
                           w1 of
                      None \<Rightarrow> None
                    | Some (Inl x, w2) \<Rightarrow> Some (Inr (Raised x, s1\<lparr>wld := w2\<rparr>))
                    | Some (Inr r, w2) \<Rightarrow> Some (after_fetch e seg_end r (s1\<lparr>wld := w2\<rparr>))))))"

partial_function (option) crawl_loop ::
  "env \<Rightarrow> int \<Rightarrow> run_state \<Rightarrow> (loop_exit \<times> run_state) option"
where
  "crawl_loop e latest s =
     (case crawl_step e latest s of
        None \<Rightarrow> None
      | Some (Inl s') \<Rightarrow> crawl_loop e latest s'
      | Some (Inr out) \<Rightarrow> Some out)"

subsection \<open>After the loop: sort, publish, finish\<close>

text \<open>
  The sort key \<^verbatim>\<open>(int(x.get("blockNumber", 0)), int(x.get("timeStamp", 0)))\<close>: a missing
  key counts as 0, a string that \<^verbatim>\<open>int\<close> rejects raises.
\<close>

definition int_field :: "env \<Rightarrow> string option \<Rightarrow> string + int" where
  "int_field e v = (case v of None \<Rightarrow> Inr 0 | Some s \<Rightarrow> py_int e s)"

definition sort_key_of :: "env \<Rightarrow> tx \<Rightarrow> string + (int \<times> int)" where
  "sort_key_of e t =
     (case int_field e (blockNumber t) of
        Inl m \<Rightarrow> Inl m
      | Inr b \<Rightarrow> (case int_field e (timeStamp t) of
                    Inl m \<Rightarrow> Inl m
                  | Inr ts \<Rightarrow> Inr (b, ts)))"

text \<open>\<^verbatim>\<open>sorted\<close> computes every key first, in list order; the first failure raises.\<close>

fun keyed :: "env \<Rightarrow> tx list \<Rightarrow> string + ((int \<times> int) \<times> tx) list" where
  "keyed e [] = Inr []"
| "keyed e (t # ts) =
     (case sort_key_of e t of
        Inl m \<Rightarrow> Inl m
      | Inr k \<Rightarrow> (case keyed e ts of Inl m \<Rightarrow> Inl m | Inr ks \<Rightarrow> Inr ((k, t) # ks)))"

text \<open>\<^verbatim>\<open>sorted(values, key=...)\<close>: a stable sort on the keys, pairs compared lexicographically.\<close>

definition sorted_txs :: "env \<Rightarrow> tx list \<Rightarrow> exn + tx list" where
  "sorted_txs e ts =
     (case keyed e ts of
        Inl m \<Rightarrow> Inl (PyError m)
      | Inr ks \<Rightarrow> Inr (map snd (sort_key fst ks)))"

text \<open>
  Storing a result: the entry goes into \<^verbatim>\<open>RESULTS_CACHE\<close>, its id is appended to
  \<^verbatim>\<open>RESULT_IDS\<close>, and the head of that list is evicted when it is longer than the limit.
\<close>

definition publish :: "string \<Rightarrow> result \<Rightarrow> store \<Rightarrow> store" where
  "publish result_id entry st =
     (let cache = (RESULTS_CACHE st)(result_id \<mapsto> entry);
          ids = RESULT_IDS st @ [result_id]
      in if length ids > CACHE_SIZE_LIMIT
         then st\<lparr>RESULT_IDS := tl ids, RESULTS_CACHE := cache(hd ids := None)\<rparr>
         else st\<lparr>RESULT_IDS := ids, RESULTS_CACHE := cache\<rparr>)"

text \<open>The \<^verbatim>\<open>except Exception\<close> handler of \<^verbatim>\<open>run_job\<close>.\<close>

definition job_error :: "exn \<Rightarrow> job \<Rightarrow> job" where
  "job_error x j = fail_job (''Error: '' @ str_of x) j"

text \<open>
  The token transfers of the result: looked at only when \<^verbatim>\<open>include_tokens\<close> is set, and
  sorted only when \<^verbatim>\<open>token_seen_hashes\<close> is not empty.
\<close>

definition token_txs_data :: "env \<Rightarrow> job \<Rightarrow> exn + tx list option" where
  "token_txs_data e j =
     (if include_tokens j then
        (if token_seen_hashes j \<noteq> [] then
           (case sorted_txs e (map snd (token_seen_hashes j)) of
              Inl x \<Rightarrow> Inl x
            | Inr ts \<Rightarrow> Inr (Some ts))
         else Inr None)
      else Inr None)"

text \<open>
  The code after the loop, reached when the loop ends or breaks. \<open>result_id\<close> is the
  fresh \<^verbatim>\<open>uuid4\<close>. An exception on the way goes to the handler with the job as it is
  then.
\<close>

definition finalize :: "env \<Rightarrow> string \<Rightarrow> int \<Rightarrow> job \<Rightarrow> store \<Rightarrow> job \<times> store" where
  "finalize e result_id latest j st =
     (case sorted_txs e (map snd (seen_hashes j)) of
        Inl x \<Rightarrow> (job_error x j, st)
      | Inr all_txs_raw \<Rightarrow>
          (let cstart = (if segments j = [] then start_block j else sg_start (hd (segments j)));
               cend = (if segments j = [] then latest else sg_end (last (segments j)));
               j1 = j\<lparr>coverage_end := Some cend\<rparr>
           in case token_txs_data e j1 of
                Inl x \<Rightarrow> (job_error x j1, st)
              | Inr tk \<Rightarrow>
                  (j1\<lparr>running := False, done_flag := True, rid := Some result_id,
                      eth_total_unique := int (length all_txs_raw)\<rparr>,
                   publish result_id
                     \<lparr>eth_txs = all_txs_raw, r_address = address j,
                      r_start_block = start_block j, r_latest_block = latest,
                      eth_total = int (length all_txs_raw), r_coverage_start = cstart,
                      r_coverage_end = cend, r_segments = segments j,
                      r_include_tokens = include_tokens j, token_txs = tk\<rparr> st)))"

text \<open>The locals as \<^verbatim>\<open>run_job\<close> reads them from the job before the loop.\<close>

definition initial_state :: "job \<Rightarrow> world \<Rightarrow> run_state" where
  "initial_state j w =
     \<lparr>rjob = j, l_pages_total = pages_total j, l_window_blocks = window_blocks j,
      l_seg_start = seg_start j, segment_num = segments_done j, wld = w\<rparr>"

text \<open>The first lines of \<^verbatim>\<open>run_job\<close>, up to the loop, once the latest block is known.\<close>

definition start_state :: "job \<Rightarrow> int \<Rightarrow> world \<Rightarrow> run_state" where
  "start_state j0 latest w =
     initial_state
       (j0\<lparr>running := True, paused := False, done_flag := False, error := None,
           latest_block := Some latest\<rparr>) w"

text \<open>
  Where control goes once the loop is left: an exception goes to the handler, the end of
  the loop and the \<^verbatim>\<open>break\<close> of the page budget go on to \<open>finalize\<close>, and the
  \<^verbatim>\<open>return\<close>s inside the loop leave the job and the registries as they are.
\<close>

definition after_loop ::
  "env \<Rightarrow> string \<Rightarrow> int \<Rightarrow> store \<Rightarrow> loop_exit \<Rightarrow> job \<Rightarrow> job \<times> store" where
  "after_loop e result_id latest st ex j =
     (case ex of
        Raised x \<Rightarrow> (job_error x j, st)
      | Exhausted \<Rightarrow> finalize e result_id latest j st
      | BudgetStop \<Rightarrow> finalize e result_id latest j st
      | _ \<Rightarrow> (j, st))"

text \<open>
  \<^verbatim>\<open>run_job\<close> on the job object it holds: the way the loop ended, the job and the
  registries afterwards.
\<close>

definition run_job ::
  "env \<Rightarrow> string \<Rightarrow> job \<Rightarrow> store \<Rightarrow> world \<Rightarrow> (loop_exit \<times> job \<times> store \<times> world) option" where
  "run_job e result_id j0 st w =
     (let j = j0\<lparr>running := True, paused := False, done_flag := False, error := None\<rparr> in
      case get_latest_block e of
        Inl x \<Rightarrow> Some (Raised x, job_error x j, st, w)
      | Inr latest \<Rightarrow>
          (case crawl_loop e latest (start_state j0 latest w) of
             None \<Rightarrow> None
           | Some (ex, s) \<Rightarrow>
               (case after_loop e result_id latest st ex (rjob s) of
                  (j', st') \<Rightarrow> Some (ex, j', st', wld s))))"

text \<open>
  The background thread on the registries: it takes the job from \<^verbatim>\<open>JOBS\<close> (a missing id
  is a KeyError that ends the thread) and its writes land in that entry.
\<close>

definition run_job_thread :: "env \<Rightarrow> string \<Rightarrow> string \<Rightarrow> store \<Rightarrow> world \<Rightarrow> store option" where
  "run_job_thread e result_id job_id st w =
     (case JOBS st job_id of
        None \<Rightarrow> Some st
      | Some j \<Rightarrow>
          (case run_job e result_id j st w of
             None \<Rightarrow> None
           | Some (ex, j', st', w') \<Rightarrow> Some (st'\<lparr>JOBS := (JOBS st')(job_id \<mapsto> j')\<rparr>)))"

section \<open>EtherscanClient._get (app/etherscan.py)\<close>

text \<open>
  The parsed body, as far as \<^verbatim>\<open>_get\<close> looks into it: \<^verbatim>\<open>status\<close>, \<^verbatim>\<open>message\<close> (with its
  default \<^verbatim>\<open>""\<close>) and \<^verbatim>\<open>result\<close> when it is a string; \<open>js_rest\<close> is everything else.
\<close>

record reply =
  js_status :: "string option"
  js_message :: string
  js_result_text :: "string option"
  js_rest :: string

text \<open>
  What one \<^verbatim>\<open>requests.get\<close> followed by \<^verbatim>\<open>raise_for_status\<close> and \<^verbatim>\<open>r.json()\<close> can do:
  \<^item> \<open>Timeout m\<close>, \<open>ConnectionError m\<close>: the two exceptions of requests, \<open>m\<close> their text;
  \<^item> \<open>OtherException m\<close>: any other exception;
  \<^item> \<open>HttpError code m text\<close>: \<^verbatim>\<open>raise_for_status\<close> raised for the status \<open>code\<close>, with
    text \<open>m\<close>, the body of the response being \<open>text\<close>;
  \<^item> \<open>Body text js\<close>: a response with body \<open>text\<close>; \<open>js\<close> is \<^verbatim>\<open>r.json()\<close>, \<open>None\<close> when it
    raises ValueError.
\<close>

datatype response =
    Timeout string
  | ConnectionError string
  | OtherException string
  | HttpError int string string
  | Body string "reply option"

definition max_attempts :: nat where "max_attempts = 3"
definition backoff_times :: "int list" where "backoff_times = [1, 2, 4]"

definition lower_char :: "char \<Rightarrow> char" where
  "lower_char c =
     (if 65 \<le> (of_char c :: nat) \<and> (of_char c :: nat) \<le> 90
      then char_of ((of_char c :: nat) + 32) else c)"

definition lower :: "string \<Rightarrow> string" where
  "lower s = map lower_char s"

text \<open>Python's \<^verbatim>\<open>needle in haystack\<close> on strings.\<close>

fun contains :: "string \<Rightarrow> string \<Rightarrow> bool" where
  "contains needle [] = (needle = [])"
| "contains needle (c # cs) =
     (take (length needle) (c # cs) = needle \<or> contains needle cs)"

definition is_rate_limit :: "reply \<Rightarrow> bool" where
  "is_rate_limit j \<longleftrightarrow>
     js_status j = Some ''0'' \<and>
     (contains ''rate limit'' (lower (js_message j)) \<or>
      contains ''max rate limit reached'' (lower (js_message j)) \<or>
      contains ''busy'' (lower (js_message j)) \<or>
      (case js_result_text j of
         None \<Rightarrow> False
       | Some r \<Rightarrow> contains ''rate limit'' (lower r) \<or> contains ''busy'' (lower r)))"

definition is_notok :: "reply \<Rightarrow> bool" where
  "is_notok j \<longleftrightarrow> js_status j = Some ''0'' \<and> \<not> is_rate_limit j"

text \<open>
  The variables of the retry loop: the attempt number, \<^verbatim>\<open>last_exception\<close>,
  \<^verbatim>\<open>last_response_content\<close>, and the effects so far: the delays passed to
  \<^verbatim>\<open>time.sleep\<close>, in order, and the number of requests sent.
\<close>

record get_state =
  attempt :: nat
  last_exception :: "string option"
  last_response_content :: "string option"
  sleeps :: "int list"
  sent :: nat

definition exhausted_suffix :: string where
  "exhausted_suffix = '' after 3 attempts. ''"

text \<open>\<^verbatim>\<open>time.sleep(backoff_times[attempt]); continue\<close>\<close>

definition retry :: "get_state \<Rightarrow> get_state" where
  "retry st = st\<lparr>sleeps := sleeps st @ [backoff_times ! attempt st],
                attempt := Suc (attempt st)\<rparr>"

text \<open>
  The \<^verbatim>\<open>except Exception\<close> clause, which also catches the RuntimeError that the
  invalid-JSON branch raises inside the \<^verbatim>\<open>try\<close>.
\<close>

definition on_exception :: "string \<Rightarrow> get_state \<Rightarrow> get_state + (exn + reply) \<times> get_state" where
  "on_exception m st =
     (let st1 = st\<lparr>last_exception := Some m\<rparr> in
      if attempt st < max_attempts - 1 then Inl (retry st1)
      else Inr (Inl (RuntimeError
             (''Etherscan API request failed'' @ exhausted_suffix @ ''Last error: '' @ m)), st1))"

text \<open>
  One pass of \<^verbatim>\<open>for attempt in range(max_attempts)\<close> on the response \<open>r\<close>: \<open>Inl\<close> goes
  on to the next attempt, \<open>Inr\<close> returns the JSON or raises.
\<close>

definition get_attempt :: "response \<Rightarrow> get_state \<Rightarrow> get_state + (exn + reply) \<times> get_state" where
  "get_attempt r st0 =
     (let st = st0\<lparr>sent := Suc (sent st0)\<rparr> in
      case r of
        Timeout m \<Rightarrow>
          (let st1 = st\<lparr>last_exception := Some m\<rparr> in
           if attempt st < max_attempts - 1 then Inl (retry st1)
           else Inr (Inl (RuntimeError
                  (''Etherscan API request timed out'' @ exhausted_suffix @
                   ''Last error: '' @ m)), st1))
      | ConnectionError m \<Rightarrow>
          (let st1 = st\<lparr>last_exception := Some m\<rparr> in
           if attempt st < max_attempts - 1 then Inl (retry st1)
           else Inr (Inl (RuntimeError
                  (''Etherscan API connection failed'' @ exhausted_suffix @
                   ''Last error: '' @ m)), st1))
      | OtherException m \<Rightarrow> on_exception m st
      | HttpError code m text \<Rightarrow>
          if code = 429 then
            (if attempt st < max_attempts - 1 then Inl (retry st)
             else Inr (Inl (RuntimeError
                    (''Etherscan API returned HTTP 429'' @ exhausted_suffix @
                     ''Last response: '' @ take 200 text)), st))
          else Inr (Inl (HTTPError code m), st)
      | Body text js \<Rightarrow>
          (let st1 = st\<lparr>last_response_content := Some (take 200 text)\<rparr> in
           case js of
             None \<Rightarrow>
               if attempt st < max_attempts - 1 then Inl (retry st1)
               else on_exception
                      (''Etherscan API returned invalid JSON'' @ exhausted_suffix @
                       ''Last response: '' @ take 200 text) st1
           | Some j \<Rightarrow>
               if is_rate_limit j \<and> attempt st < max_attempts - 1 then Inl (retry st1)
               else if is_notok j \<and> attempt st < max_attempts - 1 then Inl (retry st1)
               else Inr (Inr j, st1)))"

text \<open>
  The loop over the attempts; \<open>transport n\<close> is what the \<open>n\<close>-th request of this call
  does. After the last attempt comes the code below the loop.
\<close>

function get_loop :: "(nat \<Rightarrow> response) \<Rightarrow> get_state \<Rightarrow> (exn + reply) \<times> get_state" where
  "get_loop transport st =
     (if attempt st < max_attempts then
        (case get_attempt (transport (attempt st)) st of
           Inl st' \<Rightarrow> get_loop transport st'
         | Inr out \<Rightarrow> out)
      else
        (Inl (RuntimeError
           (''Etherscan API request failed after 3 attempts.'' @
            (case last_exception st of None \<Rightarrow> [] | Some m \<Rightarrow> '' Last exception: '' @ m) @
            (case last_response_content st of None \<Rightarrow> []
             | Some c \<Rightarrow> '' Last response: '' @ take 200 c))), st))"
  by pat_completeness auto
termination
  by (relation "measure (\<lambda>(t, st). max_attempts - attempt st)")
     (auto simp: get_attempt_def on_exception_def retry_def Let_def
           split: response.splits option.splits if_splits)

definition etherscan_get :: "(nat \<Rightarrow> response) \<Rightarrow> (exn + reply) \<times> get_state" where
  "etherscan_get transport =
     get_loop transport
       \<lparr>attempt = 0, last_exception = None, last_response_content = None,
        sleeps = [], sent = 0\<rparr>"

section \<open>Notions used in the statements\<close>

text \<open>The world \<open>w'\<close> is \<open>w\<close> with more page requests, all of them with offset \<open>ps\<close>.\<close>

definition extends_with :: "int \<Rightarrow> world \<Rightarrow> world \<Rightarrow> bool" where
  "extends_with ps w w' \<longleftrightarrow>
     (\<exists>new. requests w' = requests w @ new \<and> (\<forall>q \<in> set new. rq_offset q = ps))"

text \<open>The keys of a job that no line of \<^verbatim>\<open>run_job\<close> assigns.\<close>

definition job_frame :: "job \<Rightarrow> job \<Rightarrow> bool" where
  "job_frame j j' \<longleftrightarrow>
     address j' = address j \<and> start_block j' = start_block j \<and>
     include_tokens j' = include_tokens j \<and> page_size j' = page_size j \<and>
     max_pages_int j' = max_pages_int j \<and>
     token_seen_hashes j' = token_seen_hashes j \<and> token_preview j' = token_preview j \<and>
     coverage_start j' = coverage_start j"

definition step_kept :: "run_state \<Rightarrow> run_state \<Rightarrow> bool" where
  "step_kept s s' \<longleftrightarrow>
     job_frame (rjob s) (rjob s') \<and> extends_with (page_size (rjob s)) (wld s) (wld s')"

text \<open>The tuple a drain returned, when it returned one.\<close>

definition returned :: "((exn + window_result) \<times> world) option \<Rightarrow> window_result option" where
  "returned out = (case out of Some (Inr r, w) \<Rightarrow> Some r | _ \<Rightarrow> None)"

text \<open>Projections of what \<^verbatim>\<open>run_job\<close> leaves behind.\<close>

definition final_exit :: "(loop_exit \<times> job \<times> store \<times> world) option \<Rightarrow> loop_exit option" where
  "final_exit r = (case r of None \<Rightarrow> None | Some (ex, j, st, w) \<Rightarrow> Some ex)"

definition final_job :: "(loop_exit \<times> job \<times> store \<times> world) option \<Rightarrow> job option" where
  "final_job r = (case r of None \<Rightarrow> None | Some (ex, j, st, w) \<Rightarrow> Some j)"

definition final_store :: "(loop_exit \<times> job \<times> store \<times> world) option \<Rightarrow> store option" where
  "final_store r = (case r of None \<Rightarrow> None | Some (ex, j, st, w) \<Rightarrow> Some st)"

definition final_world :: "(loop_exit \<times> job \<times> store \<times> world) option \<Rightarrow> world option" where
  "final_world r = (case r of None \<Rightarrow> None | Some (ex, j, st, w) \<Rightarrow> Some w)"

text \<open>The result a run stored under \<open>result_id\<close>, if any.\<close>

definition published ::
  "string \<Rightarrow> (loop_exit \<times> job \<times> store \<times> world) option \<Rightarrow> result option" where
  "published result_id r =
     (case r of None \<Rightarrow> None | Some (ex, j, st, w) \<Rightarrow> RESULTS_CACHE st result_id)"

text \<open>
  The registries the program can get into: it starts with empty ones, and every
  endpoint call and every background run takes it from one state to the next.
\<close>

inductive reachable :: "store \<Rightarrow> bool" where
  initial: "reachable empty_store"
| started: "reachable s \<Longrightarrow>
            crawl_all_start e strip ok job_id addr sb it mp ps s = Inr s' \<Longrightarrow> reachable s'"
| stopped: "reachable s \<Longrightarrow> crawl_stop job_id s = Inr s' \<Longrightarrow> reachable s'"
| resumed: "reachable s \<Longrightarrow> crawl_resume job_id s = Inr s' \<Longrightarrow> reachable s'"
| ran: "reachable s \<Longrightarrow> run_job_thread e result_id job_id s w = Some s' \<Longrightarrow> reachable s'"

text \<open>Each registry is no longer than its limit and holds only ids of its FIFO list.\<close>

definition store_ok :: "store \<Rightarrow> bool" where
  "store_ok s \<longleftrightarrow>
     length (JOB_IDS s) \<le> JOBS_SIZE_LIMIT \<and> dom (JOBS s) \<subseteq> set (JOB_IDS s) \<and>
     length (RESULT_IDS s) \<le> CACHE_SIZE_LIMIT \<and> dom (RESULTS_CACHE s) \<subseteq> set (RESULT_IDS s)"

text \<open>
  For comparing a run with the same run under another \<^verbatim>\<open>include_tokens\<close>: the loop state
  with the job's flag set to \<open>b\<close>; and, of the registries \<open>st'\<close> and \<open>st_b\<close> the two runs
  leave from \<open>st\<close>, that either both are \<open>st\<close> or both have the same result published,
  but for its \<^verbatim>\<open>include_tokens\<close> entry.
\<close>

definition with_tokens :: "bool \<Rightarrow> run_state \<Rightarrow> run_state" where
  "with_tokens b s = s\<lparr>rjob := (rjob s)\<lparr>include_tokens := b\<rparr>\<rparr>"

definition flag_variant :: "bool \<Rightarrow> string \<Rightarrow> store \<Rightarrow> store \<Rightarrow> store \<Rightarrow> bool" where
  "flag_variant b result_id st st_b st' \<longleftrightarrow>
     (st' = st \<and> st_b = st) \<or>
     (\<exists>res. st' = publish result_id res st \<and>
            st_b = publish result_id (res\<lparr>r_include_tokens := b\<rparr>) st)"

section \<open>Example inputs\<close>

text \<open>Concrete records, upstreams and arguments on which the theorems below are run.\<close>

definition tx_a :: tx where
  "tx_a = \<lparr>tx_hash = Some ''0xa'', blockNumber = Some ''5'', timeStamp = Some ''7'',
           payload = ''first''\<rparr>"

definition tx_b :: tx where
  "tx_b = \<lparr>tx_hash = Some ''0xb'', blockNumber = Some ''3'', timeStamp = Some ''9'',
           payload = ''second''\<rparr>"

text \<open>A decimal reader that stands for \<^verbatim>\<open>int\<close> on the example strings.\<close>

definition is_digit :: "char \<Rightarrow> bool" where
  "is_digit c \<longleftrightarrow> 48 \<le> (of_char c :: nat) \<and> (of_char c :: nat) \<le> 57"

definition dec_int :: "string \<Rightarrow> string + int" where
  "dec_int s =
     (if s \<noteq> [] \<and> list_all is_digit s
      then Inr (int (foldl (\<lambda>n c. 10 * n + (of_char c - 48)) 0 s))
      else Inl (''invalid literal for int() with base 10: '' @ s))"

text \<open>
  An upstream whose tip is block 10, that answers every page request with the same
  chunk, and where no stop is ever requested.
\<close>

definition flat_upstream :: "tx list \<Rightarrow> env" where
  "flat_upstream chunk =
     \<lparr>get_latest_block = Inr 10,
      txlist_page = (\<lambda>n addr sb eb page off. Inr chunk),
      stop_requested_at = (\<lambda>n. False),
      py_int = dec_int,
      format_transaction = (\<lambda>t addr. Inr (payload t))\<rparr>"

definition world0 :: world where
  "world0 = \<lparr>clock = 0, requests = [], merged = []\<rparr>"

text \<open>The job \<^verbatim>\<open>crawl_all_start\<close> creates for address 0xabc from block 0, page size 50.\<close>

definition demo_job :: job where
  "demo_job = new_job ''0xabc'' 0 False 50 None"

text \<open>
  The run of that job against an upstream with one short page holding \<open>tx_a\<close>, \<open>tx_b\<close>
  and \<open>tx_a\<close> again.
\<close>

definition demo_env :: env where
  "demo_env = flat_upstream [tx_a, tx_b, tx_a]"

definition demo_run :: "store \<Rightarrow> (loop_exit \<times> job \<times> store \<times> world) option" where
  "demo_run st = run_job demo_env ''r1'' demo_job st world0"

text \<open>What that run publishes.\<close>

definition demo_result :: result where
  "demo_result =
     \<lparr>eth_txs = [tx_b, tx_a], r_address = ''0xabc'', r_start_block = 0,
      r_latest_block = 10, eth_total = 2, r_coverage_start = 0, r_coverage_end = 10,
      r_segments = [\<lparr>sg_start = 0, sg_end = 10, sg_pages = 1, sg_tx_count = 3,
                     sg_cap_hit = False\<rparr>],
      r_include_tokens = False, token_txs = None\<rparr>"

text \<open>
  Registries with a history: job \<open>a\<close> is created and runs to its end, then nineteen
  more jobs are created.
\<close>

definition twenty_ids :: "string list" where
  "twenty_ids = [''a'', ''b'', ''c'', ''d'', ''e'', ''f'', ''g'', ''h'', ''i'', ''j'',
                 ''k'', ''l'', ''m'', ''n'', ''o'', ''p'', ''q'', ''r'', ''s'', ''t'']"

definition create_demo :: "store \<Rightarrow> string \<Rightarrow> store" where
  "create_demo s job_id = register_job job_id demo_job s"

definition served_store :: store where
  "served_store =
     the (run_job_thread demo_env ''r1'' ''a'' (create_demo empty_store ''a'') world0)"

definition full_store :: store where
  "full_store = foldl create_demo served_store (tl twenty_ids)"

text \<open>
  An upstream whose tip is block 300000, so that a crawl from block 0 needs two windows;
  \<open>stop\<close> says at which ticks a stop is requested.
\<close>

definition long_upstream :: "(nat \<Rightarrow> bool) \<Rightarrow> tx list \<Rightarrow> env" where
  "long_upstream stop chunk =
     \<lparr>get_latest_block = Inr 300000,
      txlist_page = (\<lambda>n addr sb eb page off. Inr chunk),
      stop_requested_at = stop,
      py_int = dec_int,
      format_transaction = (\<lambda>t addr. Inr (payload t))\<rparr>"

text \<open>A stop is requested once the first window is done (from tick 4 on).\<close>

definition pausing_env :: env where
  "pausing_env = long_upstream (\<lambda>n. 4 \<le> n) [tx_a]"

text \<open>A job with a page budget of one page, and an upstream that never stops.\<close>

definition budget_env :: env where
  "budget_env = long_upstream (\<lambda>n. False) [tx_a]"

definition budget_job :: job where
  "budget_job = new_job ''0xabc'' 0 False 50 (Some 1)"

text \<open>An upstream that fills every page of 500 records, whatever the window.\<close>

definition busy_env :: env where
  "busy_env = flat_upstream (replicate 500 tx_a)"

definition busy_job :: job where
  "busy_job = new_job ''0xabc'' 0 False 500 None"

text \<open>
  The drain of that job's window of blocks 0 to 10, and of the one-block window 10 to 10.
\<close>

definition busy_args :: fetch_args where
  "busy_args = window_args busy_env busy_job 0 10 0"

definition busy_block_args :: fetch_args where
  "busy_block_args = window_args busy_env busy_job 10 10 0"

definition budget_result :: result where
  "budget_result =
     \<lparr>eth_txs = [tx_a], r_address = ''0xabc'', r_start_block = 0,
      r_latest_block = 300000, eth_total = 1, r_coverage_start = 0,
      r_coverage_end = 199999,
      r_segments = [\<lparr>sg_start = 0, sg_end = 199999, sg_pages = 1, sg_tx_count = 1,
                     sg_cap_hit = False\<rparr>],
      r_include_tokens = False, token_txs = None\<rparr>"

text \<open>
  The same budget of one page against an upstream whose pages hold 50 records each: the
  first page of the first window is full, and the budget stops the second request.
\<close>

definition full_page_env :: env where
  "full_page_env = long_upstream (\<lambda>n. False) (replicate 50 tx_a)"

definition first_window_result :: result where
  "first_window_result =
     \<lparr>eth_txs = [], r_address = ''0xabc'', r_start_block = 0,
      r_latest_block = 300000, eth_total = 0, r_coverage_start = 0,
      r_coverage_end = 300000, r_segments = [],
      r_include_tokens = False, token_txs = None\<rparr>"

text \<open>Registries that hold one job.\<close>

definition single_store :: "job \<Rightarrow> store" where
  "single_store j = \<lparr>JOBS = [''a'' \<mapsto> j], JOB_IDS = [''a''], RESULTS_CACHE = Map.empty,
                     RESULT_IDS = []\<rparr>"

section \<open>Rules for the two loops\<close>

lemma fetch_loop_break:
  "fetch_page e a s = Inr out \<Longrightarrow> fetch_loop e a s = Some out"
  by (subst fetch_loop.simps) simp

lemma fetch_loop_continue:
  "fetch_page e a s = Inl s' \<Longrightarrow> fetch_loop e a s = fetch_loop e a s'"
  by (subst fetch_loop.simps) simp

lemma fetch_loop_rule:
  assumes run: "fetch_loop e a s = Some out"
    and init: "I s"
    and step: "\<And>s s'. I s \<Longrightarrow> fetch_page e a s = Inl s' \<Longrightarrow> I s'"
    and exit: "\<And>s out. I s \<Longrightarrow> fetch_page e a s = Inr out \<Longrightarrow> Q out"
  shows "Q out"
proof -
  have "e = e \<longrightarrow> a = a \<longrightarrow> I s \<longrightarrow> Q out"
  proof (rule fetch_loop.raw_induct
      [where P = "\<lambda>e' a' s y. e' = e \<longrightarrow> a' = a \<longrightarrow> I s \<longrightarrow> Q y", OF _ run])
    fix f e' a' t y
    assume ih: "\<And>e' a' t y. f e' a' t = Some y \<Longrightarrow> e' = e \<longrightarrow> a' = a \<longrightarrow> I t \<longrightarrow> Q y"
      and eq: "(case fetch_page e' a' t of Inl s' \<Rightarrow> f e' a' s' | Inr out \<Rightarrow> Some out) = Some y"
    show "e' = e \<longrightarrow> a' = a \<longrightarrow> I t \<longrightarrow> Q y"
    proof (intro impI)
      assume e: "e' = e" and a: "a' = a" and t: "I t"
      show "Q y"
      proof (cases "fetch_page e a t")
        case (Inl t')
        with eq e a have "f e a t' = Some y" by simp
        moreover have "I t'" using t Inl by (rule step)
        ultimately show ?thesis using ih by blast
      next
        case (Inr o')
        with eq e a have "o' = y" by simp
        with t Inr show ?thesis by (auto intro: exit)
      qed
    qed
  qed
  with init show ?thesis by simp
qed

lemma fetch_loop_induct:
  assumes run: "fetch_loop e a s = Some out"
    and exit: "\<And>s out. fetch_page e a s = Inr out \<Longrightarrow> P s out"
    and step: "\<And>s s' out. fetch_page e a s = Inl s' \<Longrightarrow> fetch_loop e a s' = Some out
                 \<Longrightarrow> P s' out \<Longrightarrow> P s out"
  shows "P s out"
proof -
  have "e = e \<longrightarrow> a = a \<longrightarrow> fetch_loop e a s = Some out \<and> P s out"
  proof (rule fetch_loop.raw_induct
      [where P = "\<lambda>e' a' s y. e' = e \<longrightarrow> a' = a \<longrightarrow> fetch_loop e a s = Some y \<and> P s y",
       OF _ run])
    fix f e' a' t y
    assume ih: "\<And>e' a' t y. f e' a' t = Some y \<Longrightarrow>
                  e' = e \<longrightarrow> a' = a \<longrightarrow> fetch_loop e a t = Some y \<and> P t y"
      and eq: "(case fetch_page e' a' t of Inl s' \<Rightarrow> f e' a' s' | Inr out \<Rightarrow> Some out) = Some y"
    show "e' = e \<longrightarrow> a' = a \<longrightarrow> fetch_loop e a t = Some y \<and> P t y"
    proof (intro impI)
      assume e: "e' = e" and a: "a' = a"
      show "fetch_loop e a t = Some y \<and> P t y"
      proof (cases "fetch_page e a t")
        case (Inl t')
        with eq e a have "f e a t' = Some y" by simp
        with ih have r: "fetch_loop e a t' = Some y" and p: "P t' y" by blast+
        from Inl r have "fetch_loop e a t = Some y" by (simp add: fetch_loop_continue)
        moreover from Inl r p have "P t y" by (rule step)
        ultimately show ?thesis ..
      next
        case (Inr o')
        with eq e a have o': "o' = y" by simp
        from Inr o' have "fetch_loop e a t = Some y" by (simp add: fetch_loop_break)
        moreover from Inr o' have "P t y" by (auto intro: exit)
        ultimately show ?thesis ..
      qed
    qed
  qed
  then show ?thesis by simp
qed

lemma crawl_loop_exit:
  "crawl_step e latest s = Some (Inr out) \<Longrightarrow> crawl_loop e latest s = Some out"
  by (subst crawl_loop.simps) simp

lemma crawl_loop_continue:
  "crawl_step e latest s = Some (Inl s') \<Longrightarrow> crawl_loop e latest s = crawl_loop e latest s'"
  by (subst crawl_loop.simps) simp

lemma crawl_loop_diverge:
  "crawl_step e latest s = None \<Longrightarrow> crawl_loop e latest s = None"
  by (subst crawl_loop.simps) simp

lemma crawl_loop_induct:
  assumes run: "crawl_loop e latest s = Some out"
    and exit: "\<And>s out. crawl_step e latest s = Some (Inr out) \<Longrightarrow> P s out"
    and step: "\<And>s s' out. crawl_step e latest s = Some (Inl s')
                 \<Longrightarrow> crawl_loop e latest s' = Some out \<Longrightarrow> P s' out \<Longrightarrow> P s out"
  shows "P s out"
proof -
  have "e = e \<longrightarrow> latest = latest \<longrightarrow> crawl_loop e latest s = Some out \<and> P s out"
  proof (rule crawl_loop.raw_induct
      [where P = "\<lambda>e' l' s y. e' = e \<longrightarrow> l' = latest \<longrightarrow>
                     crawl_loop e latest s = Some y \<and> P s y", OF _ run])
    fix f e' l' t y
    assume ih: "\<And>e' l' t y. f e' l' t = Some y \<Longrightarrow>
                  e' = e \<longrightarrow> l' = latest \<longrightarrow> crawl_loop e latest t = Some y \<and> P t y"
      and eq: "(case crawl_step e' l' t of None \<Rightarrow> None
                | Some (Inl s') \<Rightarrow> f e' l' s' | Some (Inr out) \<Rightarrow> Some out) = Some y"
    show "e' = e \<longrightarrow> l' = latest \<longrightarrow> crawl_loop e latest t = Some y \<and> P t y"
    proof (intro impI)
      assume e: "e' = e" and l: "l' = latest"
      show "crawl_loop e latest t = Some y \<and> P t y"
      proof (cases "crawl_step e latest t")
        case None
        with eq e l show ?thesis by simp
      next
        case (Some r)
        show ?thesis
        proof (cases r)
          case (Inl t')
          with Some eq e l have "f e latest t' = Some y" by simp
          with ih have r: "crawl_loop e latest t' = Some y" and p: "P t' y" by blast+
          from Some Inl have c: "crawl_step e latest t = Some (Inl t')" by simp
          from c r have "crawl_loop e latest t = Some y" by (simp add: crawl_loop_continue)
          moreover from c r p have "P t y" by (rule step)
          ultimately show ?thesis ..
        next
          case (Inr o')
          with Some eq e l have o': "o' = y" by simp
          from Some Inr o' have c: "crawl_step e latest t = Some (Inr y)" by simp
          then have "crawl_loop e latest t = Some y" by (rule crawl_loop_exit)
          moreover from c have "P t y" by (rule exit)
          ultimately show ?thesis ..
        qed
      qed
    qed
  qed
  then show ?thesis by simp
qed

lemma crawl_loop_rule:
  assumes run: "crawl_loop e latest s = Some out"
    and init: "I s"
    and step: "\<And>s s'. I s \<Longrightarrow> crawl_step e latest s = Some (Inl s') \<Longrightarrow> I s'"
    and exit: "\<And>s out. I s \<Longrightarrow> crawl_step e latest s = Some (Inr out) \<Longrightarrow> Q out"
  shows "Q out"
proof -
  have "I s \<longrightarrow> Q out"
    by (rule crawl_loop_induct [OF run, where P = "\<lambda>s out. I s \<longrightarrow> Q out"])
       (auto intro: step exit)
  with init show ?thesis by simp
qed

section \<open>The cap flags of a window drain\<close>

lemma max_pages_for_offset_ceiling:
  "max_pages_for_offset ps = \<lceil>10000 / real_of_int ps\<rceil>"
proof -
  have "- (real_of_int 10000 / real_of_int ps) = real_of_int (- 10000) / real_of_int ps"
    by simp
  then have "- \<lfloor>- (real_of_int 10000 / real_of_int ps)\<rfloor> = - ((- 10000) div ps)"
    by (simp only: floor_divide_of_int_eq)
  then show ?thesis
    by (simp add: max_pages_for_offset_def MAX_RECORDS_PER_QUERY_def ceiling_def)
qed

lemma fetch_page_unresolvable:
  "fetch_page e a s = Inr (Inr r, w') \<Longrightarrow>
     cap_unresolvable r = (cap_hit r \<and> end_blk a - start_blk a + 1 \<le> min_window_blocks a)"
  by (cases s) (auto simp: fetch_page_def window_return_def
      split: prod.splits if_splits sum.splits option.splits)

lemma fetch_loop_unresolvable:
  assumes "fetch_loop e a s = Some (Inr r, w')"
  shows "cap_unresolvable r = (cap_hit r \<and> end_blk a - start_blk a + 1 \<le> min_window_blocks a)"
  using assms
  by (rule fetch_loop_rule[where I = "\<lambda>_. True" and Q = "\<lambda>out. \<forall>r w'. out = (Inr r, w') \<longrightarrow>
        cap_unresolvable r = (cap_hit r \<and> end_blk a - start_blk a + 1 \<le> min_window_blocks a)", rule_format])
     (auto dest: fetch_page_unresolvable)

lemma fetch_txlist_window_unresolvable:
  assumes "fetch_txlist_window e a w = Some (Inr r, w')"
  shows "cap_unresolvable r = (cap_hit r \<and> end_blk a - start_blk a + 1 \<le> min_window_blocks a)"
proof -
  from assms have "fetch_loop e a ([], 1, w) = Some (Inr r, w')"
    by (auto simp: fetch_txlist_window_def split: if_splits)
  then show ?thesis by (rule fetch_loop_unresolvable)
qed

text \<open>
  The flags of a returned tuple exclude one another: a cap hit is reported only by the
  cap test, after a page that was not short, with no pause and no budget stop.
\<close>

lemma fetch_page_cap_hit:
  "fetch_page e a (collected, page, w) = Inr (Inr r, w') \<Longrightarrow> cap_hit r \<Longrightarrow>
     \<not> truncated r \<and> \<not> paused_hit r \<and> pages_used r = page + 1
     \<and> (pages_used r > \<lceil>10000 / real_of_int (fa_page_size a)\<rceil>
        \<or> 10000 \<le> int (length (txs_list r)))"
  by (auto simp: fetch_page_def window_return_def max_pages_for_offset_ceiling
      MAX_RECORDS_PER_QUERY_def split: prod.splits if_splits sum.splits option.splits)

lemma fetch_loop_cap_hit:
  assumes "fetch_loop e a s = Some (Inr r, w')" and "cap_hit r"
  shows "\<not> truncated r \<and> \<not> paused_hit r
     \<and> (pages_used r > \<lceil>10000 / real_of_int (fa_page_size a)\<rceil>
        \<or> 10000 \<le> int (length (txs_list r)))"
proof -
  have "\<forall>t v. (Inr r :: exn + window_result, w') = (Inr t, v) \<longrightarrow> cap_hit t \<longrightarrow>
      \<not> truncated t \<and> \<not> paused_hit t
      \<and> (pages_used t > \<lceil>10000 / real_of_int (fa_page_size a)\<rceil>
         \<or> 10000 \<le> int (length (txs_list t)))"
    by (rule fetch_loop_rule [OF assms(1), where I = "\<lambda>_. True"
          and Q = "\<lambda>out. \<forall>t v. out = (Inr t, v) \<longrightarrow> cap_hit t \<longrightarrow>
            \<not> truncated t \<and> \<not> paused_hit t
            \<and> (pages_used t > \<lceil>10000 / real_of_int (fa_page_size a)\<rceil>
               \<or> 10000 \<le> int (length (txs_list t)))"])
      (auto dest: fetch_page_cap_hit)
  with assms(2) show ?thesis by blast
qed

text \<open>
  In a drain from its start every page before the current one was full, so the records
  collected are at least \<open>(page - 1) * page_size\<close>; hence, for a positive page size,
  whenever the page index passes the ceiling the record count has reached the cap too.
\<close>

lemma fetch_page_collected:
  assumes "fetch_page e a (c, p, w) = Inl (c', p', w')"
    and "(p - 1) * fa_page_size a \<le> int (length c)"
  shows "(p' - 1) * fa_page_size a \<le> int (length c')"
  using assms
  by (auto simp: fetch_page_def algebra_simps
      split: prod.splits if_splits sum.splits option.splits)

lemma fetch_page_cap_count:
  assumes "fetch_page e a (c, p, w) = Inr (Inr r, w')" and "cap_hit r"
    and "(p - 1) * fa_page_size a \<le> int (length c)" and "0 < fa_page_size a"
  shows "10000 \<le> int (length (txs_list r))"
proof -
  from assms(1,2) obtain chunk where r: "txs_list r = c @ chunk" "pages_used r = p + 1"
    and full: "fa_page_size a \<le> int (length chunk)"
    and cap: "(p + 1 > \<lceil>10000 / real_of_int (fa_page_size a)\<rceil>
                \<and> int (length chunk) = fa_page_size a)
              \<or> 10000 \<le> int (length (c @ chunk))"
    by (auto simp: fetch_page_def window_return_def max_pages_for_offset_ceiling
        MAX_RECORDS_PER_QUERY_def split: prod.splits if_splits sum.splits option.splits)
  show ?thesis
  proof (cases "10000 \<le> int (length (c @ chunk))")
    case True
    with r show ?thesis by simp
  next
    case False
    with cap have "\<lceil>10000 / real_of_int (fa_page_size a)\<rceil> \<le> p" by simp
    then have "10000 / real_of_int (fa_page_size a) \<le> real_of_int p"
      by (simp add: ceiling_le_iff)
    with assms(4) have "10000 \<le> real_of_int p * real_of_int (fa_page_size a)"
      by (simp add: pos_divide_le_eq)
    then have "10000 \<le> p * fa_page_size a"
      by (metis of_int_le_iff of_int_mult of_int_numeral)
    moreover have "p * fa_page_size a \<le> int (length c) + fa_page_size a"
      using assms(3) by (simp add: algebra_simps)
    ultimately have "10000 \<le> int (length (c @ chunk))" using full by simp
    with False show ?thesis by simp
  qed
qed

lemma cap_hit_reaches_query_cap:
  assumes run: "fetch_txlist_window e a w = Some (Inr r, w')" and "cap_hit r"
    and pos: "0 < fa_page_size a"
  shows "10000 \<le> int (length (txs_list r))"
proof -
  from run have loop: "fetch_loop e a ([], 1, w) = Some (Inr r, w')"
    by (auto simp: fetch_txlist_window_def split: if_splits)
  have "\<forall>t v. (Inr r :: exn + window_result, w') = (Inr t, v) \<longrightarrow> cap_hit t \<longrightarrow>
           10000 \<le> int (length (txs_list t))"
  proof (rule fetch_loop_rule [OF loop,
          where I = "\<lambda>(c, p, w). (p - 1) * fa_page_size a \<le> int (length c)"
          and Q = "\<lambda>out. \<forall>t v. out = (Inr t, v) \<longrightarrow> cap_hit t \<longrightarrow>
                     10000 \<le> int (length (txs_list t))"])
    show "case ([], 1, w) of (c, p, w) \<Rightarrow> (p - 1) * fa_page_size a \<le> int (length c)"
      by simp
  next
    fix s s' :: "tx list \<times> int \<times> world"
    assume "case s of (c, p, w) \<Rightarrow> (p - 1) * fa_page_size a \<le> int (length c)"
      and "fetch_page e a s = Inl s'"
    then show "case s' of (c, p, w) \<Rightarrow> (p - 1) * fa_page_size a \<le> int (length c)"
      by (cases s, cases s') (auto dest: fetch_page_collected)
  next
    fix s :: "tx list \<times> int \<times> world" and out
    assume i: "case s of (c, p, w) \<Rightarrow> (p - 1) * fa_page_size a \<le> int (length c)"
      and out: "fetch_page e a s = Inr out"
    obtain c p v where s: "s = (c, p, v)" by (cases s)
    show "\<forall>t v. out = (Inr t, v) \<longrightarrow> cap_hit t \<longrightarrow> 10000 \<le> int (length (txs_list t))"
    proof (intro allI impI)
      fix t u
      assume "out = (Inr t, u)" and "cap_hit t"
      with i out s show "10000 \<le> int (length (txs_list t))"
        using fetch_page_cap_count [of e a c p v t u] pos by simp
    qed
  qed
  with assms(2) show ?thesis by blast
qed

text \<open>
  The drain of a window against the upstream that fills every page of 500 records:
  nineteen passes go on to the next page, with \<open>500 * n\<close> records after \<open>n\<close> of them.
\<close>

lemma busy_pass:
  assumes "fa_page_size a = 500" and "should_stop a = Some (\<lambda>n. False)"
    and "fa_max_pages_int a = None" and "n < 19"
  shows "\<exists>w'. fetch_loop busy_env a (replicate (500 * n) tx_a, int n + 1, w)
               = fetch_loop busy_env a (replicate (500 * Suc n) tx_a, int n + 2, w')"
proof -
  have "\<exists>w'. fetch_page busy_env a (replicate (500 * n) tx_a, int n + 1, w)
               = Inl (replicate (500 * n) tx_a @ replicate 500 tx_a, int n + 2, w')"
    using assms
    by (simp add: fetch_page_def poll_stop_def busy_env_def flat_upstream_def
        max_pages_for_offset_def MAX_RECORDS_PER_QUERY_def)
  then obtain w' where "fetch_page busy_env a (replicate (500 * n) tx_a, int n + 1, w)
               = Inl (replicate (500 * Suc n) tx_a, int n + 2, w')"
    by (auto simp: replicate_add [symmetric] simp del: replicate_Suc)
  then show ?thesis by (blast dest: fetch_loop_continue)
qed

lemma busy_drain:
  assumes "fa_page_size a = 500" and "should_stop a = Some (\<lambda>n. False)"
    and "fa_max_pages_int a = None"
  shows "n \<le> 19 \<Longrightarrow>
         \<exists>w'. fetch_loop busy_env a ([], 1, w)
               = fetch_loop busy_env a (replicate (500 * n) tx_a, int n + 1, w')"
proof (induction n)
  case 0
  show ?case by auto
next
  case (Suc n)
  then obtain w1 where "fetch_loop busy_env a ([], 1, w)
               = fetch_loop busy_env a (replicate (500 * n) tx_a, int n + 1, w1)"
    by auto
  moreover from Suc.prems busy_pass [OF assms, of n w1]
  obtain w2 where "fetch_loop busy_env a (replicate (500 * n) tx_a, int n + 1, w1)
               = fetch_loop busy_env a (replicate (500 * Suc n) tx_a, int n + 2, w2)"
    by auto
  ultimately show ?case by (auto simp: add.commute)
qed

text \<open>
  Claim C1. Take any pass of the drain loop in which no stop is seen before the request,
  the page budget allows the request, and the upstream answers with \<open>chunk\<close>; \<open>stop2\<close> is
  the stop flag read after the response.
  \<^item> If the chunk has fewer records than the page size, the drain ends there: the tuple
    returned has neither \<open>cap_hit\<close> nor \<open>cap_unresolvable\<close> set.
  \<^item> If the chunk is full and no stop is seen after it, the page index advances to
    \<open>page + 1\<close>. When that index exceeds \<open>ceil(10000 / page_size)\<close> with a chunk of
    exactly the page size, or the records collected for the window are 10000 or more,
    the drain ends with \<open>cap_hit\<close> set in the tuple returned, and \<open>cap_unresolvable\<close> set
    in it exactly when \<open>end - start + 1 \<le> min_window_blocks\<close>. When neither holds, no
    flag is set and the loop goes on to the next page.
  \<^item> Whatever a drain returns, \<open>cap_unresolvable\<close> holds exactly when \<open>cap_hit\<close> holds and
    the window is at most \<open>min_window_blocks\<close> wide (\<^verbatim>\<open>run_job\<close> passes
    \<open>MIN_WINDOW_BLOCKS = 1\<close>), and \<open>cap_hit\<close> comes with no pause and no budget stop, and
    with a page index past the ceiling or 10000 records or more.
\<close>

theorem fetch_txlist_window_cap_detection:
  assumes before: "poll_stop (should_stop a) w = (False, w1)"
    and budget: "case fa_max_pages_int a of None \<Rightarrow> True
                 | Some m \<Rightarrow> fa_pages_total a + page \<le> m"
    and answer: "txlist_page e (clock w1) (fa_address a) (start_blk a) (end_blk a) page
                   (fa_page_size a) = Inr chunk"
    and after: "poll_stop (should_stop a) (send_request a page w1) = (stop2, w2)"
  shows
    "(int (length chunk) < fa_page_size a \<longrightarrow>
        (\<exists>r. fetch_loop e a (collected, page, w) = Some (Inr r, w2)
             \<and> \<not> cap_hit r \<and> \<not> cap_unresolvable r \<and> \<not> truncated r
             \<and> paused_hit r = stop2
             \<and> txs_list r = collected @ chunk \<and> pages_used r = page))
     \<and> (\<not> stop2 \<and> fa_page_size a \<le> int (length chunk) \<longrightarrow>
          (if (page + 1 > \<lceil>10000 / real_of_int (fa_page_size a)\<rceil>
                 \<and> int (length chunk) = fa_page_size a)
              \<or> 10000 \<le> int (length (collected @ chunk))
           then \<exists>r. fetch_loop e a (collected, page, w) = Some (Inr r, w2)
                    \<and> cap_hit r
                    \<and> cap_unresolvable r
                        = (end_blk a - start_blk a + 1 \<le> min_window_blocks a)
                    \<and> \<not> truncated r \<and> \<not> paused_hit r
                    \<and> txs_list r = collected @ chunk \<and> pages_used r = page + 1
           else fetch_loop e a (collected, page, w) =
                  fetch_loop e a (collected @ chunk, page + 1, w2)))
     \<and> (\<forall>w0 r w'. fetch_txlist_window e a w0 = Some (Inr r, w') \<longrightarrow>
          cap_unresolvable r =
            (cap_hit r \<and> end_blk a - start_blk a + 1 \<le> min_window_blocks a)
          \<and> (cap_hit r \<longrightarrow>
                \<not> truncated r \<and> \<not> paused_hit r
                \<and> (pages_used r > \<lceil>10000 / real_of_int (fa_page_size a)\<rceil>
                   \<or> 10000 \<le> int (length (txs_list r)))))
     \<and> MIN_WINDOW_BLOCKS = 1"
proof (intro conjI impI allI)
  assume short: "int (length chunk) < fa_page_size a"
  let ?r = "window_return (collected @ chunk) page False False stop2 False"
  have "fetch_page e a (collected, page, w) = Inr (Inr ?r, w2)"
    using before budget answer after short
    by (auto simp: fetch_page_def split: option.splits)
  then have "fetch_loop e a (collected, page, w) = Some (Inr ?r, w2)"
    by (rule fetch_loop_break)
  then show "\<exists>r. fetch_loop e a (collected, page, w) = Some (Inr r, w2)
             \<and> \<not> cap_hit r \<and> \<not> cap_unresolvable r \<and> \<not> truncated r
             \<and> paused_hit r = stop2
             \<and> txs_list r = collected @ chunk \<and> pages_used r = page"
    by (simp add: window_return_def)
next
  assume full: "\<not> stop2 \<and> fa_page_size a \<le> int (length chunk)"
  let ?cap = "(page + 1 > \<lceil>10000 / real_of_int (fa_page_size a)\<rceil>
                 \<and> int (length chunk) = fa_page_size a)
              \<or> 10000 \<le> int (length (collected @ chunk))"
  let ?hit = "\<exists>r. fetch_loop e a (collected, page, w) = Some (Inr r, w2)
                    \<and> cap_hit r
                    \<and> cap_unresolvable r
                        = (end_blk a - start_blk a + 1 \<le> min_window_blocks a)
                    \<and> \<not> truncated r \<and> \<not> paused_hit r
                    \<and> txs_list r = collected @ chunk \<and> pages_used r = page + 1"
  show "if ?cap then ?hit
        else fetch_loop e a (collected, page, w) =
               fetch_loop e a (collected @ chunk, page + 1, w2)"
  proof (cases ?cap)
    case True
    let ?r = "window_return (collected @ chunk) (page + 1) True False False
                (end_blk a - start_blk a + 1 \<le> min_window_blocks a)"
    have "fetch_page e a (collected, page, w) = Inr (Inr ?r, w2)"
      using before budget answer after full True
      by (auto simp: fetch_page_def max_pages_for_offset_ceiling MAX_RECORDS_PER_QUERY_def
          split: option.splits)
    then have "fetch_loop e a (collected, page, w) = Some (Inr ?r, w2)"
      by (rule fetch_loop_break)
    then have ?hit by (simp add: window_return_def)
    then show ?thesis unfolding if_P [OF True] .
  next
    case False
    have "fetch_page e a (collected, page, w) = Inl (collected @ chunk, page + 1, w2)"
      using before budget answer after full False
      by (auto simp: fetch_page_def max_pages_for_offset_ceiling MAX_RECORDS_PER_QUERY_def
          split: option.splits)
    then have "fetch_loop e a (collected, page, w) =
                 fetch_loop e a (collected @ chunk, page + 1, w2)"
      by (rule fetch_loop_continue)
    then show ?thesis unfolding if_not_P [OF False] .
  qed
next
  fix w0 r w'
  assume "fetch_txlist_window e a w0 = Some (Inr r, w')"
  then have loop: "fetch_loop e a ([], 1, w0) = Some (Inr r, w')"
    by (auto simp: fetch_txlist_window_def split: if_splits)
  then show "cap_unresolvable r =
            (cap_hit r \<and> end_blk a - start_blk a + 1 \<le> min_window_blocks a)"
    by (rule fetch_loop_unresolvable)
  {
    assume "cap_hit r"
    with loop have c: "\<not> truncated r \<and> \<not> paused_hit r
     \<and> (pages_used r > \<lceil>10000 / real_of_int (fa_page_size a)\<rceil>
        \<or> 10000 \<le> int (length (txs_list r)))"
      by (rule fetch_loop_cap_hit)
    from c show "\<not> truncated r" by simp
    from c show "\<not> paused_hit r" by simp
    from c show "pages_used r > \<lceil>10000 / real_of_int (fa_page_size a)\<rceil>
        \<or> 10000 \<le> int (length (txs_list r))" by simp
  }
next
  show "MIN_WINDOW_BLOCKS = 1" by (simp add: MIN_WINDOW_BLOCKS_def)
qed

theorem fetch_txlist_window_cap_detection_witness:
  "map_option cap_hit (returned (fetch_txlist_window busy_env busy_args world0)) = Some True
   \<and> map_option cap_unresolvable (returned (fetch_txlist_window busy_env busy_args world0))
       = Some False
   \<and> map_option pages_used (returned (fetch_txlist_window busy_env busy_args world0))
       = Some 21
   \<and> map_option (\<lambda>r. length (txs_list r))
        (returned (fetch_txlist_window busy_env busy_args world0)) = Some 10000
   \<and> map_option cap_hit (returned (fetch_txlist_window busy_env busy_block_args world0))
       = Some True
   \<and> map_option cap_unresolvable
        (returned (fetch_txlist_window busy_env busy_block_args world0)) = Some True
   \<and> map_option cap_hit
        (returned (fetch_txlist_window demo_env (window_args demo_env demo_job 0 10 0) world0))
       = Some False
   \<and> map_option cap_unresolvable
        (returned (fetch_txlist_window demo_env (window_args demo_env demo_job 0 10 0) world0))
       = Some False
   \<and> map_option txs_list
        (returned (fetch_txlist_window demo_env (window_args demo_env demo_job 0 10 0) world0))
       = Some [tx_a, tx_b, tx_a]"
proof -
  have hit: "\<exists>r w. fetch_txlist_window busy_env a world0 = Some (Inr r, w)
        \<and> cap_hit r
        \<and> cap_unresolvable r = (end_blk a - start_blk a + 1 \<le> min_window_blocks a)
        \<and> pages_used r = 21 \<and> length (txs_list r) = 10000"
    if a: "fa_page_size a = 500" "should_stop a = Some (\<lambda>n. False)"
      "fa_max_pages_int a = None" for a
  proof -
    from busy_drain [OF a, of 19 world0] obtain w19 where
      d: "fetch_loop busy_env a ([], 1, world0)
            = fetch_loop busy_env a (replicate 9500 tx_a, 20, w19)"
      by auto
    let ?w1 = "w19\<lparr>clock := Suc (clock w19)\<rparr>"
    let ?w2 = "(send_request a 20 ?w1)\<lparr>clock := Suc (clock (send_request a 20 ?w1))\<rparr>"
    have "\<exists>r. fetch_loop busy_env a (replicate 9500 tx_a, 20, w19) = Some (Inr r, ?w2)
        \<and> cap_hit r
        \<and> cap_unresolvable r = (end_blk a - start_blk a + 1 \<le> min_window_blocks a)
        \<and> \<not> truncated r \<and> \<not> paused_hit r
        \<and> txs_list r = replicate 9500 tx_a @ replicate 500 tx_a \<and> pages_used r = 20 + 1"
      using fetch_txlist_window_cap_detection
        [of a w19 ?w1 20 busy_env "replicate 500 tx_a" False ?w2 "replicate 9500 tx_a",
         THEN conjunct2, THEN conjunct1]
      by (simp add: a poll_stop_def busy_env_def flat_upstream_def)
    with d a show ?thesis by (auto simp: fetch_txlist_window_def)
  qed
  have "\<exists>r w. fetch_txlist_window busy_env busy_args world0 = Some (Inr r, w)
        \<and> cap_hit r \<and> \<not> cap_unresolvable r \<and> pages_used r = 21
        \<and> length (txs_list r) = 10000"
    using hit [of busy_args]
    by (simp add: busy_args_def busy_block_args_def window_args_def busy_job_def new_job_def
        busy_env_def flat_upstream_def MIN_WINDOW_BLOCKS_def)
  moreover have "\<exists>r w. fetch_txlist_window busy_env busy_block_args world0 = Some (Inr r, w)
        \<and> cap_hit r \<and> cap_unresolvable r"
    using hit [of busy_block_args]
    by (auto simp: busy_args_def busy_block_args_def window_args_def busy_job_def new_job_def
        busy_env_def flat_upstream_def MIN_WINDOW_BLOCKS_def)
  moreover have "\<exists>r w. fetch_txlist_window demo_env (window_args demo_env demo_job 0 10 0) world0
          = Some (Inr r, w)
        \<and> \<not> cap_hit r \<and> \<not> cap_unresolvable r \<and> txs_list r = [tx_a, tx_b, tx_a]"
    using fetch_txlist_window_cap_detection
      [of "window_args demo_env demo_job 0 10 0" world0 "world0\<lparr>clock := 1\<rparr>" 1 demo_env
          "[tx_a, tx_b, tx_a]" False
          "(send_request (window_args demo_env demo_job 0 10 0) 1 (world0\<lparr>clock := 1\<rparr>))
             \<lparr>clock := 3\<rparr>" "[]",
       THEN conjunct1]
    by (auto simp: fetch_txlist_window_def window_args_def demo_job_def new_job_def
        demo_env_def flat_upstream_def poll_stop_def send_request_def world0_def)
  ultimately show ?thesis
    by (auto simp: returned_def)
qed

section \<open>What a run leaves untouched\<close>

lemma extends_with_refl: "extends_with ps w w"
  by (simp add: extends_with_def)

lemma extends_with_trans:
  "extends_with ps w w1 \<Longrightarrow> extends_with ps w1 w2 \<Longrightarrow> extends_with ps w w2"
  by (fastforce simp: extends_with_def)

lemma extends_with_poll: "poll_stop cb w = (b, w') \<Longrightarrow> extends_with ps w w'"
  by (auto simp: poll_stop_def extends_with_def split: option.splits)

lemma extends_with_send: "extends_with (fa_page_size a) w (send_request a p w)"
  by (simp add: send_request_def extends_with_def)

lemma extends_with_merged [simp]:
  "extends_with ps w (w'\<lparr>merged := m\<rparr>) = extends_with ps w w'"
  by (simp add: extends_with_def)

lemma fetch_page_requests:
  assumes "fetch_page e a (c, p, w) = r"
  shows "case r of Inl (c', p', w') \<Rightarrow> extends_with (fa_page_size a) w w'
         | Inr (out, w') \<Rightarrow> extends_with (fa_page_size a) w w'"
proof -
  obtain b1 w1 where p1: "poll_stop (should_stop a) w = (b1, w1)" by force
  obtain b2 w2 where p2: "poll_stop (should_stop a) (send_request a p w1) = (b2, w2)" by force
  have e1: "extends_with (fa_page_size a) w w1" using p1 by (rule extends_with_poll)
  have e2: "extends_with (fa_page_size a) w (send_request a p w1)"
    using e1 extends_with_send by (rule extends_with_trans)
  have e3: "extends_with (fa_page_size a) w w2"
    using e2 extends_with_poll [OF p2] by (rule extends_with_trans)
  show ?thesis
    using assms p1 p2 e1 e2 e3
    by (auto simp: fetch_page_def split: if_splits sum.splits option.splits)
qed

lemma fetch_loop_requests:
  assumes "fetch_loop e a (c, p, w) = Some (out, w')"
  shows "extends_with (fa_page_size a) w w'"
proof -
  have "case (out, w') of (out, w') \<Rightarrow> extends_with (fa_page_size a) w w'"
  proof (rule fetch_loop_rule [OF assms,
        where I = "\<lambda>(c, p, w1). extends_with (fa_page_size a) w w1"
          and Q = "\<lambda>(out, w'). extends_with (fa_page_size a) w w'"])
    show "case (c, p, w) of (c, p, w1) \<Rightarrow> extends_with (fa_page_size a) w w1"
      by (simp add: extends_with_refl)
  next
    fix s s'
    assume "case s of (c, p, w1) \<Rightarrow> extends_with (fa_page_size a) w w1"
      and "fetch_page e a s = Inl s'"
    then show "case s' of (c, p, w1) \<Rightarrow> extends_with (fa_page_size a) w w1"
      using fetch_page_requests [of e a "fst s" "fst (snd s)" "snd (snd s)" "Inl s'"]
      by (auto intro: extends_with_trans)
  next
    fix s out
    assume "case s of (c, p, w1) \<Rightarrow> extends_with (fa_page_size a) w w1"
      and "fetch_page e a s = Inr out"
    then show "case out of (out, w') \<Rightarrow> extends_with (fa_page_size a) w w'"
      using fetch_page_requests [of e a "fst s" "fst (snd s)" "snd (snd s)" "Inr out"]
      by (auto intro: extends_with_trans)
  qed
  then show ?thesis by simp
qed

lemma fetch_txlist_window_requests:
  "fetch_txlist_window e a w = Some (out, w') \<Longrightarrow> extends_with (fa_page_size a) w w'"
  by (auto simp: fetch_txlist_window_def extends_with_refl
      split: if_splits dest: fetch_loop_requests)

lemma job_frame_refl: "job_frame j j"
  by (simp add: job_frame_def)

lemma job_frame_trans: "job_frame j j1 \<Longrightarrow> job_frame j1 j2 \<Longrightarrow> job_frame j j2"
  by (simp add: job_frame_def)

lemma job_frame_pause [simp]: "job_frame j (pause_job s) = job_frame j (rjob s)"
  by (simp add: job_frame_def pause_job_def Let_def)

lemma job_frame_fail [simp]: "job_frame j (fail_job m j') = job_frame j j'"
  by (simp add: job_frame_def fail_job_def)

lemma job_frame_flag_window [simp]: "job_frame j (flag_window wb j') = job_frame j j'"
  by (simp add: job_frame_def flag_window_def)

lemma job_frame_flag_segments [simp]: "job_frame j (flag_segments n j') = job_frame j j'"
  by (simp add: job_frame_def flag_segments_def)

lemma job_frame_error [simp]: "job_frame j (job_error x j') = job_frame j j'"
  by (simp add: job_error_def)

lemma step_kept_refl: "step_kept s s"
  by (simp add: step_kept_def job_frame_refl extends_with_refl)

lemma step_kept_trans: "step_kept s s1 \<Longrightarrow> step_kept s1 s2 \<Longrightarrow> step_kept s s2"
  unfolding step_kept_def
  by (metis extends_with_trans job_frame_def job_frame_trans)

lemma complete_segment_kept:
  assumes "complete_segment e se r s = res"
  shows "case res of Inl s' \<Rightarrow> step_kept s s' | Inr (ex, s') \<Rightarrow> step_kept s s'"
proof -
  obtain x fp where fp:
    "format_preview e (address (rjob s)) (eth_preview (rjob s)) (txs_list r) = (x, fp)"
    by force
  have "case complete_segment e se r s of
          Inl s' \<Rightarrow> step_kept s s' | Inr (ex, s') \<Rightarrow> step_kept s s'"
    by (cases x)
       (simp_all add: complete_segment_def merged_job_def saved_job_def Let_def fp step_kept_def extends_with_refl,
        simp_all add: job_frame_def)
  with assms show ?thesis by simp
qed

lemma after_fetch_kept:
  assumes "after_fetch e se r s = res"
  shows "case res of Inl s' \<Rightarrow> step_kept s s' | Inr (ex, s') \<Rightarrow> step_kept s s'"
proof -
  let ?s = "s\<lparr>l_pages_total := l_pages_total s + pages_used r\<rparr>"
  have c: "case complete_segment e se r ?s of
          Inl s' \<Rightarrow> step_kept s s' | Inr (ex, s') \<Rightarrow> step_kept s s'"
    using complete_segment_kept [of e se r ?s, OF refl]
    by (simp add: step_kept_def split: sum.splits prod.splits)
  have "case after_fetch e se r s of
          Inl s' \<Rightarrow> step_kept s s' | Inr (ex, s') \<Rightarrow> step_kept s s'"
    using c
    by (simp add: after_fetch_def Let_def step_kept_def job_frame_refl extends_with_refl
        split: sum.splits prod.splits)
  with assms show ?thesis by simp
qed

lemma crawl_step_kept:
  assumes "crawl_step e latest s = Some res"
  shows "case res of Inl s' \<Rightarrow> step_kept s s' | Inr (ex, s') \<Rightarrow> step_kept s s'"
proof (cases "l_seg_start s \<le> latest")
  case False
  with assms show ?thesis by (auto simp: crawl_step_def step_kept_refl)
next
  case True
  obtain stop w1 where poll: "poll_stop (Some (stop_requested_at e)) (wld s) = (stop, w1)"
    by force
  have w1: "extends_with (page_size (rjob s)) (wld s) w1"
    using poll by (rule extends_with_poll)
  show ?thesis
  proof (cases stop)
    case True
    with assms \<open>l_seg_start s \<le> latest\<close> poll w1 show ?thesis
      by (auto simp: crawl_step_def step_kept_def job_frame_refl)
  next
    case nostop: False
    let ?s1 = "s\<lparr>segment_num := segment_num s + 1, wld := w1\<rparr>"
    let ?se = "min (l_seg_start s + l_window_blocks s - 1) latest"
    show ?thesis
    proof (cases "segment_num ?s1 > SAFETY_MAX_SEGMENTS")
      case True
      with assms \<open>l_seg_start s \<le> latest\<close> poll w1 nostop show ?thesis
        by (auto simp: crawl_step_def step_kept_def job_frame_refl Let_def)
    next
      case False
      let ?a = "window_args e (rjob ?s1) (l_seg_start ?s1) ?se (l_pages_total ?s1)"
      from assms \<open>l_seg_start s \<le> latest\<close> poll nostop False
      obtain out w2 where f: "fetch_txlist_window e ?a w1 = Some (out, w2)"
        and res: "res = (case out of Inl x \<Rightarrow> Inr (Raised x, ?s1\<lparr>wld := w2\<rparr>)
                         | Inr r \<Rightarrow> after_fetch e ?se r (?s1\<lparr>wld := w2\<rparr>))"
        by (auto simp: crawl_step_def Let_def split: option.splits sum.splits)
      have "extends_with (fa_page_size ?a) w1 w2"
        using f by (rule fetch_txlist_window_requests)
      then have w2: "extends_with (page_size (rjob s)) (wld s) w2"
        using w1 by (auto simp: window_args_def intro: extends_with_trans)
      then have k: "step_kept s (?s1\<lparr>wld := w2\<rparr>)"
        by (simp add: step_kept_def job_frame_refl)
      show ?thesis
      proof (cases out)
        case (Inl x)
        with res k show ?thesis by simp
      next
        case (Inr r)
        with res have "res = after_fetch e ?se r (?s1\<lparr>wld := w2\<rparr>)" by simp
        from after_fetch_kept [OF this [symmetric]] k show ?thesis
          by (auto split: sum.splits intro: step_kept_trans)
      qed
    qed
  qed
qed

lemma crawl_loop_kept:
  assumes "crawl_loop e latest s = Some (ex, s')"
  shows "step_kept s s'"
proof -
  have "case (ex, s') of (ex, s') \<Rightarrow> step_kept s s'"
  proof (rule crawl_loop_rule [OF assms, where I = "\<lambda>t. step_kept s t"
        and Q = "\<lambda>(ex, s'). step_kept s s'"])
    show "step_kept s s" by (rule step_kept_refl)
  next
    fix t t' assume "step_kept s t" "crawl_step e latest t = Some (Inl t')"
    then show "step_kept s t'"
      using crawl_step_kept [of e latest t "Inl t'"] by (auto intro: step_kept_trans)
  next
    fix t out assume "step_kept s t" "crawl_step e latest t = Some (Inr out)"
    then show "case out of (ex, s') \<Rightarrow> step_kept s s'"
      using crawl_step_kept [of e latest t "Inr out"]
      by (auto intro: step_kept_trans split: prod.splits)
  qed
  then show ?thesis by simp
qed

lemma finalize_frame:
  "finalize e result_id latest j st = (j', st') \<Longrightarrow> job_frame j j'"
  by (auto simp: finalize_def Let_def job_frame_refl split: sum.splits)
     (simp_all add: job_frame_def)

lemma after_loop_frame:
  "after_loop e result_id latest st ex j = (j', st') \<Longrightarrow> job_frame j j'"
  by (cases ex) (auto simp: after_loop_def job_frame_refl dest: finalize_frame)

lemma run_job_cases:
  assumes "run_job e result_id j st w = Some (ex, j', st', w')"
  obtains (no_tip) x where "get_latest_block e = Inl x" "ex = Raised x" "st' = st" "w' = w"
      "j' = job_error x (j\<lparr>running := True, paused := False, done_flag := False,
                            error := None\<rparr>)"
  | (looped) latest s where "get_latest_block e = Inr latest"
      "crawl_loop e latest (start_state j latest w) = Some (ex, s)"
      "after_loop e result_id latest st ex (rjob s) = (j', st')" "w' = wld s"
proof (cases "get_latest_block e")
  case (Inl x)
  with assms show ?thesis by (intro no_tip [of x]) (simp_all add: run_job_def Let_def)
next
  case (Inr latest)
  show ?thesis
  proof (cases "crawl_loop e latest (start_state j latest w)")
    case None
    with assms Inr show ?thesis by (simp add: run_job_def Let_def)
  next
    case (Some r)
    obtain ex0 s where r: "r = (ex0, s)" by (cases r)
    obtain j1 st1 where a: "after_loop e result_id latest st ex0 (rjob s) = (j1, st1)"
      by (cases "after_loop e result_id latest st ex0 (rjob s)")
    from assms Inr Some r a have "ex0 = ex" "j1 = j'" "st1 = st'" "w' = wld s"
      by (simp_all add: run_job_def Let_def)
    with Inr Some r a show ?thesis by (intro looped [of latest s]) simp_all
  qed
qed

lemma run_job_kept:
  assumes "run_job e result_id j st w = Some (ex, j', st', w')"
  shows "job_frame j j' \<and> extends_with (page_size j) w w'"
  using assms
proof (cases rule: run_job_cases)
  case (no_tip x)
  then show ?thesis by (simp add: extends_with_refl) (simp add: job_frame_def)
next
  case (looped latest s)
  have k: "step_kept (start_state j latest w) s" using looped(2) by (rule crawl_loop_kept)
  then have f1: "job_frame j (rjob s)" and w: "extends_with (page_size j) w (wld s)"
    by (auto simp: step_kept_def start_state_def initial_state_def job_frame_def)
  from after_loop_frame [OF looped(3)] f1 have "job_frame j j'"
    by (rule job_frame_trans [rotated])
  then show ?thesis using w looped(4) by simp
qed

section \<open>The example run, evaluated\<close>

lemma dec_int_digits [simp]:
  "dec_int ''3'' = Inr 3" "dec_int ''5'' = Inr 5" "dec_int ''7'' = Inr 7" "dec_int ''9'' = Inr 9"
  by (simp_all add: dec_int_def is_digit_def)

lemma demo_run_value:
  "\<exists>j w. demo_run st = Some (Exhausted, j, publish ''r1'' demo_result st, w)
     \<and> requests w = [\<lparr>rq_start = 0, rq_end = 10, rq_page = 1, rq_offset = 50\<rparr>]
     \<and> merged w = [tx_a, tx_b, tx_a]
     \<and> page_size j = 50 \<and> error j = None \<and> done_flag j \<and> \<not> running j
     \<and> rid j = Some ''r1'' \<and> token_seen_hashes j = []
     \<and> seen_hashes j = [(''0xa'', tx_a), (''0xb'', tx_b)]"
  unfolding demo_run_def demo_env_def
  apply (simp add: run_job_def flat_upstream_def start_state_def initial_state_def demo_job_def
      new_job_def world0_def)
  apply (subst crawl_loop.simps)
  apply (simp add: crawl_step_def poll_stop_def MAX_WINDOW_BLOCKS_def SAFETY_MAX_SEGMENTS_def
      window_args_def fetch_txlist_window_def MIN_WINDOW_BLOCKS_def)
  apply (subst fetch_loop.simps)
  apply (simp add: fetch_page_def poll_stop_def send_request_def window_return_def)
  apply (simp add: after_fetch_def complete_segment_def merged_job_def saved_job_def tx_a_def tx_b_def Let_def
      flag_window_def flag_segments_def MAX_WINDOW_BLOCKS_def RENDER_LIMIT_ETH_def
      PREVIEW_LIMIT_def)
  apply (subst crawl_loop.simps)
  apply (simp add: crawl_step_def after_loop_def finalize_def sorted_txs_def sort_key_of_def
      int_field_def token_txs_data_def Let_def demo_result_def tx_a_def tx_b_def)
  done

lemma publish_demo_empty:
  "RESULTS_CACHE (publish ''r1'' demo_result empty_store) ''r1'' = Some demo_result"
  by (simp add: publish_def empty_store_def Let_def CACHE_SIZE_LIMIT_def)

lemma paused_run_value:
  "\<exists>j w. run_job pausing_env ''r2'' demo_job st world0 = Some (Paused, j, st, w)
     \<and> paused j \<and> \<not> running j \<and> \<not> done_flag j \<and> error j = None
     \<and> coverage_end j = Some 199999 \<and> window_blocks j = 200000 \<and> seg_start j = 200000
     \<and> segments_done j = 1"
  unfolding pausing_env_def
  apply (simp add: run_job_def long_upstream_def start_state_def initial_state_def demo_job_def
      new_job_def world0_def)
  apply (subst crawl_loop.simps)
  apply (simp add: crawl_step_def poll_stop_def MAX_WINDOW_BLOCKS_def SAFETY_MAX_SEGMENTS_def
      window_args_def fetch_txlist_window_def MIN_WINDOW_BLOCKS_def)
  apply (subst fetch_loop.simps)
  apply (simp add: fetch_page_def poll_stop_def send_request_def window_return_def)
  apply (simp add: after_fetch_def complete_segment_def merged_job_def saved_job_def tx_a_def Let_def
      flag_window_def flag_segments_def MAX_WINDOW_BLOCKS_def RENDER_LIMIT_ETH_def
      PREVIEW_LIMIT_def)
  apply (subst crawl_loop.simps)
  apply (simp add: crawl_step_def poll_stop_def after_loop_def pause_job_def Let_def)
  done

lemma budget_run_value:
  "\<exists>j w. run_job budget_env ''r3'' budget_job st world0
        = Some (BudgetStop, j, publish ''r3'' budget_result st, w)
     \<and> error j = Some ''Stopped due to max_pages limit''
     \<and> done_flag j \<and> \<not> running j \<and> rid j = Some ''r3''
     \<and> seen_hashes j = [(''0xa'', tx_a)]"
  unfolding budget_env_def
  apply (simp add: run_job_def long_upstream_def start_state_def initial_state_def budget_job_def
      new_job_def world0_def)
  apply (subst crawl_loop.simps)
  apply (simp add: crawl_step_def poll_stop_def MAX_WINDOW_BLOCKS_def SAFETY_MAX_SEGMENTS_def
      window_args_def fetch_txlist_window_def MIN_WINDOW_BLOCKS_def)
  apply (subst fetch_loop.simps)
  apply (simp add: fetch_page_def poll_stop_def send_request_def window_return_def)
  apply (simp add: after_fetch_def complete_segment_def merged_job_def saved_job_def tx_a_def Let_def
      flag_window_def flag_segments_def MAX_WINDOW_BLOCKS_def RENDER_LIMIT_ETH_def
      PREVIEW_LIMIT_def)
  apply (subst crawl_loop.simps)
  apply (simp add: crawl_step_def poll_stop_def MAX_WINDOW_BLOCKS_def SAFETY_MAX_SEGMENTS_def
      window_args_def fetch_txlist_window_def MIN_WINDOW_BLOCKS_def)
  apply (subst fetch_loop.simps)
  apply (simp add: fetch_page_def poll_stop_def send_request_def window_return_def)
  apply (simp add: after_fetch_def fail_job_def after_loop_def finalize_def sorted_txs_def
      sort_key_of_def int_field_def token_txs_data_def Let_def budget_result_def tx_a_def)
  done

lemma busy_fetch_value:
  "\<exists>c w. fetch_txlist_window busy_env (window_args busy_env busy_job 0 10 0)
            \<lparr>clock = 1, requests = [], merged = []\<rparr>
       = Some (Inr (window_return c 21 True False False False), w)"
  unfolding busy_env_def
  apply (simp add: fetch_txlist_window_def window_args_def busy_job_def new_job_def)
  apply (subst fetch_loop.simps,
         simp add: fetch_page_def poll_stop_def send_request_def flat_upstream_def
           max_pages_for_offset_def MAX_RECORDS_PER_QUERY_def MIN_WINDOW_BLOCKS_def)+
  apply blast
  done

lemma demo_fetch_value:
  "\<exists>w. fetch_txlist_window demo_env (window_args demo_env demo_job 0 10 0)
            \<lparr>clock = 1, requests = [], merged = []\<rparr>
       = Some (Inr (window_return [tx_a, tx_b, tx_a] 1 False False False False), w)"
  unfolding demo_env_def
  apply (simp add: fetch_txlist_window_def window_args_def demo_job_def new_job_def)
  apply (subst fetch_loop.simps)
  apply (simp add: fetch_page_def poll_stop_def send_request_def flat_upstream_def)
  done

lemma first_window_run_value:
  "\<exists>j w. run_job full_page_env ''r4'' budget_job st world0
        = Some (BudgetStop, j, publish ''r4'' first_window_result st, w)
     \<and> error j = Some ''Stopped due to max_pages limit''
     \<and> done_flag j \<and> \<not> running j \<and> rid j = Some ''r4''
     \<and> seen_hashes j = []
     \<and> requests w = [\<lparr>rq_start = 0, rq_end = 199999, rq_page = 1, rq_offset = 50\<rparr>]"
  unfolding full_page_env_def
  apply (simp add: run_job_def long_upstream_def start_state_def initial_state_def budget_job_def
      new_job_def world0_def)
  apply (subst crawl_loop.simps)
  apply (simp add: crawl_step_def poll_stop_def MAX_WINDOW_BLOCKS_def SAFETY_MAX_SEGMENTS_def
      window_args_def fetch_txlist_window_def MIN_WINDOW_BLOCKS_def)
  apply (subst fetch_loop.simps)
  apply (simp add: fetch_page_def poll_stop_def send_request_def window_return_def
      max_pages_for_offset_def MAX_RECORDS_PER_QUERY_def)
  apply (subst fetch_loop.simps)
  apply (simp add: fetch_page_def poll_stop_def send_request_def window_return_def)
  apply (simp add: after_fetch_def fail_job_def after_loop_def finalize_def sorted_txs_def
      sort_key_of_def int_field_def token_txs_data_def Let_def first_window_result_def)
  done
section \<open>The page size of a job\<close>

lemma crawl_all_start_job:
  assumes "crawl_all_start e strip ok job_id addr sb it mp ps s = Inr s'"
  shows "\<exists>m. JOBS s' job_id = Some (new_job addr sb it (clamp_page_size ps) m)"
  using assms
  by (auto simp: crawl_all_start_def register_job_def Let_def split: if_splits sum.splits)

text \<open>
  Claim C10. A job that \<^verbatim>\<open>crawl_all_start\<close> creates stores the requested page size
  clamped into \<open>[50, 500]\<close>: below 50 it becomes 50, above 500 it becomes 500. A run of a
  job whose page size is in that range leaves the page size as it is (and so does a
  resume), and every page request the run sends carries an offset in \<open>[50, 500]\<close>.
\<close>

theorem page_size_clamped:
  "(crawl_all_start e strip ok job_id addr sb it mp ps s = Inr s' \<longrightarrow>
      (\<exists>j. JOBS s' job_id = Some j
           \<and> page_size j = (if ps < 50 then 50 else if ps > 500 then 500 else ps)
           \<and> 50 \<le> page_size j \<and> page_size j \<le> 500))
   \<and> (50 \<le> page_size jb \<and> page_size jb \<le> 500
        \<and> run_job e' result_id jb st w = Some (ex, j', st', w') \<longrightarrow>
      page_size j' = page_size jb \<and> page_size (resume_job j') = page_size jb
      \<and> (\<exists>new. requests w' = requests w @ new
                 \<and> (\<forall>q \<in> set new. 50 \<le> rq_offset q \<and> rq_offset q \<le> 500)))"
proof (rule conjI; rule impI)
  assume "crawl_all_start e strip ok job_id addr sb it mp ps s = Inr s'"
  then obtain m where "JOBS s' job_id = Some (new_job addr sb it (clamp_page_size ps) m)"
    using crawl_all_start_job by blast
  then show "\<exists>j. JOBS s' job_id = Some j
           \<and> page_size j = (if ps < 50 then 50 else if ps > 500 then 500 else ps)
           \<and> 50 \<le> page_size j \<and> page_size j \<le> 500"
    by (auto simp: new_job_def clamp_page_size_def)
next
  assume a: "50 \<le> page_size jb \<and> page_size jb \<le> 500
        \<and> run_job e' result_id jb st w = Some (ex, j', st', w')"
  then have k: "job_frame jb j'" and x: "extends_with (page_size jb) w w'"
    using run_job_kept by blast+
  from k have p: "page_size j' = page_size jb" by (simp add: job_frame_def)
  have r: "page_size (resume_job j') = page_size j'"
    by (simp add: resume_job_def Let_def split: option.splits)
  from x a have "\<exists>new. requests w' = requests w @ new
                 \<and> (\<forall>q \<in> set new. 50 \<le> rq_offset q \<and> rq_offset q \<le> 500)"
    by (auto simp: extends_with_def)
  with p r show "page_size j' = page_size jb \<and> page_size (resume_job j') = page_size jb
      \<and> (\<exists>new. requests w' = requests w @ new
                 \<and> (\<forall>q \<in> set new. 50 \<le> rq_offset q \<and> rq_offset q \<le> 500))"
    by simp
qed

theorem page_size_clamped_witness:
  "crawl_all_start demo_env id True ''job1'' ''0xabc'' 0 False None 7 empty_store
     = Inr (register_job ''job1'' demo_job empty_store)
   \<and> map_option page_size (JOBS (register_job ''job1'' demo_job empty_store) ''job1'') = Some 50
   \<and> map_option page_size (final_job (demo_run empty_store)) = Some 50
   \<and> map_option (map rq_offset) (map_option requests (final_world (demo_run empty_store))) = Some [50]"
proof -
  have c: "crawl_all_start demo_env id True ''job1'' ''0xabc'' 0 False None 7 empty_store
            = Inr (register_job ''job1'' demo_job empty_store)"
    by (simp add: crawl_all_start_def parse_max_pages_def demo_job_def clamp_page_size_def)
  obtain j' st' w' where r: "demo_run empty_store = Some (Exhausted, j', st', w')"
    and q: "requests w' = [\<lparr>rq_start = 0, rq_end = 10, rq_page = 1, rq_offset = 50\<rparr>]"
    using demo_run_value by blast
  have ps: "50 \<le> page_size demo_job \<and> page_size demo_job \<le> 500"
    by (simp add: demo_job_def new_job_def)
  from ps r have h: "50 \<le> page_size demo_job \<and> page_size demo_job \<le> 500
      \<and> run_job demo_env ''r1'' demo_job empty_store world0 = Some (Exhausted, j', st', w')"
    by (simp add: demo_run_def)
  from page_size_clamped [THEN conjunct1, THEN mp, OF c]
  have "map_option page_size (JOBS (register_job ''job1'' demo_job empty_store) ''job1'')
          = Some 50"
    by auto
  moreover from page_size_clamped [THEN conjunct2, THEN mp, OF h]
  have "page_size j' = 50" by (simp add: demo_job_def new_job_def)
  then have "map_option page_size (final_job (demo_run empty_store)) = Some 50"
    by (simp add: r final_job_def)
  moreover have "map_option (map rq_offset) (map_option requests (final_world (demo_run empty_store)))
          = Some [50]"
    by (simp add: r q final_world_def)
  ultimately show ?thesis using c by simp
qed

section \<open>The two bounded registries\<close>

lemma register_job_ok: "store_ok s \<Longrightarrow> store_ok (register_job job_id j s)"
proof -
  assume ok: "store_ok s"
  let ?ids = "JOB_IDS s @ [job_id]"
  show ?thesis
  proof (cases "length ?ids > JOBS_SIZE_LIMIT")
    case False
    with ok show ?thesis by (auto simp: store_ok_def register_job_def Let_def)
  next
    case True
    then have ne: "JOB_IDS s \<noteq> []" by (auto simp: JOBS_SIZE_LIMIT_def)
    then have tl: "tl ?ids = tl (JOB_IDS s) @ [job_id]" and hd: "hd ?ids = hd (JOB_IDS s)"
      and len: "0 < length (JOB_IDS s)"
      by simp_all
    have "set (JOB_IDS s) \<subseteq> insert (hd (JOB_IDS s)) (set (tl (JOB_IDS s)))"
      using ne by (cases "JOB_IDS s") auto
    with ok True tl hd len show ?thesis
      by (auto simp: store_ok_def register_job_def Let_def)
  qed
qed

lemma publish_ok: "store_ok s \<Longrightarrow> store_ok (publish result_id r s)"
proof -
  assume ok: "store_ok s"
  let ?ids = "RESULT_IDS s @ [result_id]"
  show ?thesis
  proof (cases "length ?ids > CACHE_SIZE_LIMIT")
    case False
    with ok show ?thesis by (auto simp: store_ok_def publish_def Let_def)
  next
    case True
    then have ne: "RESULT_IDS s \<noteq> []" by (auto simp: CACHE_SIZE_LIMIT_def)
    then have tl: "tl ?ids = tl (RESULT_IDS s) @ [result_id]"
      and hd: "hd ?ids = hd (RESULT_IDS s)"
      and len: "0 < length (RESULT_IDS s)"
      by simp_all
    have "set (RESULT_IDS s) \<subseteq> insert (hd (RESULT_IDS s)) (set (tl (RESULT_IDS s)))"
      using ne by (cases "RESULT_IDS s") auto
    with ok True tl hd len show ?thesis
      by (auto simp: store_ok_def publish_def Let_def)
  qed
qed

lemma finalize_store:
  "finalize e result_id latest j st = (j', st') \<Longrightarrow> st' = st \<or> (\<exists>r. st' = publish result_id r st)"
  by (auto simp: finalize_def Let_def split: sum.splits)

lemma run_job_store:
  assumes "run_job e result_id j st w = Some (ex, j', st', w')"
  shows "st' = st \<or> (\<exists>r. st' = publish result_id r st)"
  using assms
proof (cases rule: run_job_cases)
  case (no_tip x)
  then show ?thesis by simp
next
  case (looped latest s)
  then show ?thesis
    by (cases ex) (auto simp: after_loop_def dest: finalize_store)
qed

lemma store_ok_set_job:
  "store_ok s \<Longrightarrow> JOBS s job_id = Some j \<Longrightarrow> store_ok (s\<lparr>JOBS := (JOBS s)(job_id \<mapsto> j')\<rparr>)"
  by (auto simp: store_ok_def)

lemma publish_jobs [simp]:
  "JOBS (publish result_id r s) = JOBS s" "JOB_IDS (publish result_id r s) = JOB_IDS s"
  by (simp_all add: publish_def Let_def)

lemma run_job_thread_ok:
  assumes ok: "store_ok s" and run: "run_job_thread e result_id job_id s w = Some s'"
  shows "store_ok s'"
proof (cases "JOBS s job_id")
  case None
  with run ok show ?thesis by (simp add: run_job_thread_def)
next
  case (Some j)
  with run obtain ex j' st' w' where r: "run_job e result_id j s w = Some (ex, j', st', w')"
    and s': "s' = st'\<lparr>JOBS := (JOBS st')(job_id \<mapsto> j')\<rparr>"
    by (auto simp: run_job_thread_def split: option.splits)
  from run_job_store [OF r] have "store_ok st' \<and> JOBS st' job_id = Some j"
    using ok Some by (auto intro: publish_ok)
  with s' show ?thesis by (auto intro: store_ok_set_job)
qed

lemma reachable_ok: "reachable s \<Longrightarrow> store_ok s"
proof (induction rule: reachable.induct)
  case initial
  show ?case by (simp add: store_ok_def empty_store_def)
next
  case (started s e strip ok job_id addr sb it mp ps s')
  then show ?case
    by (auto simp: crawl_all_start_def split: if_splits sum.splits intro: register_job_ok)
next
  case (stopped s job_id s')
  then show ?case
    by (auto simp: crawl_stop_def split: option.splits intro: store_ok_set_job)
next
  case (resumed s job_id s')
  then show ?case
    by (auto simp: crawl_resume_def split: option.splits if_splits intro: store_ok_set_job)
next
  case (ran s e result_id job_id w s')
  then show ?case by (auto intro: run_job_thread_ok)
qed

lemma store_ok_card:
  assumes "store_ok s"
  shows "card (dom (JOBS s)) \<le> JOBS_SIZE_LIMIT" "card (dom (RESULTS_CACHE s)) \<le> CACHE_SIZE_LIMIT"
proof -
  have "card (dom (JOBS s)) \<le> card (set (JOB_IDS s))"
    using assms by (auto simp: store_ok_def intro: card_mono)
  also have "\<dots> \<le> length (JOB_IDS s)" by (rule card_length)
  finally show "card (dom (JOBS s)) \<le> JOBS_SIZE_LIMIT"
    using assms by (simp add: store_ok_def)
  have "card (dom (RESULTS_CACHE s)) \<le> card (set (RESULT_IDS s))"
    using assms by (auto simp: store_ok_def intro: card_mono)
  also have "\<dots> \<le> length (RESULT_IDS s)" by (rule card_length)
  finally show "card (dom (RESULTS_CACHE s)) \<le> CACHE_SIZE_LIMIT"
    using assms by (simp add: store_ok_def)
qed

text \<open>
  Claim C9. In every state the registries can reach, at most 20 jobs are tracked and at
  most 10 results are cached. Creating a job appends its id and, when 20 ids are already
  held, drops the oldest id and its job; the result registry is not touched, so the
  result of an evicted job can still be fetched. Storing a result appends its id and,
  when 10 ids are already held, drops the oldest id and its result; the job registry is
  not touched.
\<close>

theorem registries_bounded:
  assumes "reachable s"
  shows "card (dom (JOBS s)) \<le> 20 \<and> card (dom (RESULTS_CACHE s)) \<le> 10
     \<and> JOB_IDS (register_job job_id j s) =
         (if length (JOB_IDS s) < 20 then JOB_IDS s @ [job_id] else tl (JOB_IDS s) @ [job_id])
     \<and> JOBS (register_job job_id j s) =
         (if length (JOB_IDS s) < 20 then (JOBS s)(job_id \<mapsto> j)
          else ((JOBS s)(hd (JOB_IDS s) := None))(job_id \<mapsto> j))
     \<and> RESULTS_CACHE (register_job job_id j s) = RESULTS_CACHE s
     \<and> RESULT_IDS (register_job job_id j s) = RESULT_IDS s
     \<and> RESULT_IDS (publish result_id r s) =
         (if length (RESULT_IDS s) < 10 then RESULT_IDS s @ [result_id]
          else tl (RESULT_IDS s) @ [result_id])
     \<and> RESULTS_CACHE (publish result_id r s) =
         (if length (RESULT_IDS s) < 10 then (RESULTS_CACHE s)(result_id \<mapsto> r)
          else ((RESULTS_CACHE s)(result_id \<mapsto> r))(hd (RESULT_IDS s) := None))
     \<and> JOBS (publish result_id r s) = JOBS s
     \<and> JOB_IDS (publish result_id r s) = JOB_IDS s
     \<and> card (dom (JOBS (register_job job_id j s))) \<le> 20
     \<and> card (dom (RESULTS_CACHE (publish result_id r s))) \<le> 10"
proof -
  have ok: "store_ok s" using assms by (rule reachable_ok)
  then have lj: "length (JOB_IDS s) \<le> 20" and lr: "length (RESULT_IDS s) \<le> 10"
    by (simp_all add: store_ok_def JOBS_SIZE_LIMIT_def CACHE_SIZE_LIMIT_def)
  have nj: "tl (JOB_IDS s @ [job_id]) = tl (JOB_IDS s) @ [job_id]
            \<and> hd (JOB_IDS s @ [job_id]) = hd (JOB_IDS s)" if "\<not> length (JOB_IDS s) < 20"
    using that by (cases "JOB_IDS s") auto
  have nr: "tl (RESULT_IDS s @ [result_id]) = tl (RESULT_IDS s) @ [result_id]
            \<and> hd (RESULT_IDS s @ [result_id]) = hd (RESULT_IDS s)"
    if "\<not> length (RESULT_IDS s) < 10"
    using that by (cases "RESULT_IDS s") auto
  have c1: "card (dom (JOBS s)) \<le> 20" "card (dom (RESULTS_CACHE s)) \<le> 10"
    using store_ok_card [OF ok] by (simp_all add: JOBS_SIZE_LIMIT_def CACHE_SIZE_LIMIT_def)
  have c2: "card (dom (JOBS (register_job job_id j s))) \<le> 20"
    using store_ok_card [OF register_job_ok [OF ok]] by (simp add: JOBS_SIZE_LIMIT_def)
  have c3: "card (dom (RESULTS_CACHE (publish result_id r s))) \<le> 10"
    using store_ok_card [OF publish_ok [OF ok]] by (simp add: CACHE_SIZE_LIMIT_def)
  have r1: "JOB_IDS (register_job job_id j s) =
         (if length (JOB_IDS s) < 20 then JOB_IDS s @ [job_id] else tl (JOB_IDS s) @ [job_id])"
    using lj nj by (auto simp: register_job_def Let_def JOBS_SIZE_LIMIT_def)
  have r2: "JOBS (register_job job_id j s) =
         (if length (JOB_IDS s) < 20 then (JOBS s)(job_id \<mapsto> j)
          else ((JOBS s)(hd (JOB_IDS s) := None))(job_id \<mapsto> j))"
    using lj nj by (auto simp: register_job_def Let_def JOBS_SIZE_LIMIT_def)
  have r3: "RESULTS_CACHE (register_job job_id j s) = RESULTS_CACHE s"
    "RESULT_IDS (register_job job_id j s) = RESULT_IDS s"
    by (simp_all add: register_job_def Let_def)
  have p1: "RESULT_IDS (publish result_id r s) =
         (if length (RESULT_IDS s) < 10 then RESULT_IDS s @ [result_id]
          else tl (RESULT_IDS s) @ [result_id])"
    using lr nr by (auto simp: publish_def Let_def CACHE_SIZE_LIMIT_def)
  have p2: "RESULTS_CACHE (publish result_id r s) =
         (if length (RESULT_IDS s) < 10 then (RESULTS_CACHE s)(result_id \<mapsto> r)
          else ((RESULTS_CACHE s)(result_id \<mapsto> r))(hd (RESULT_IDS s) := None))"
    using lr nr by (auto simp: publish_def Let_def CACHE_SIZE_LIMIT_def)
  show ?thesis using c1 c2 c3 r1 r2 r3 p1 p2 by simp
qed

lemma create_demo_reachable: "reachable s \<Longrightarrow> reachable (create_demo s job_id)"
proof -
  assume r: "reachable s"
  have "crawl_all_start demo_env id True job_id ''0xabc'' 0 False None 50 s
          = Inr (create_demo s job_id)"
    by (simp add: crawl_all_start_def parse_max_pages_def create_demo_def demo_job_def
        clamp_page_size_def)
  with r show ?thesis by (rule reachable.started)
qed

lemma foldl_create_demo_reachable:
  "reachable s \<Longrightarrow> reachable (foldl create_demo s ids)"
  by (induction ids arbitrary: s) (auto intro: create_demo_reachable)

lemma served_store_run:
  "\<exists>j. run_job_thread demo_env ''r1'' ''a'' (create_demo empty_store ''a'') world0
         = Some served_store
       \<and> served_store =
           (publish ''r1'' demo_result (create_demo empty_store ''a''))\<lparr>JOBS := [''a'' \<mapsto> j]\<rparr>"
proof -
  let ?s = "create_demo empty_store ''a''"
  obtain j w where r: "demo_run ?s = Some (Exhausted, j, publish ''r1'' demo_result ?s, w)"
    using demo_run_value by blast
  have a: "JOBS ?s ''a'' = Some demo_job"
    by (simp add: create_demo_def register_job_def empty_store_def Let_def JOBS_SIZE_LIMIT_def)
  have e: "JOBS ?s = [''a'' \<mapsto> demo_job]"
    by (simp add: create_demo_def register_job_def empty_store_def Let_def JOBS_SIZE_LIMIT_def)
  have t: "run_job_thread demo_env ''r1'' ''a'' ?s world0
        = Some ((publish ''r1'' demo_result ?s)\<lparr>JOBS := [''a'' \<mapsto> j]\<rparr>)"
    using r a e by (simp add: run_job_thread_def demo_run_def)
  then show ?thesis by (auto simp: served_store_def)
qed

lemma served_store_value:
  "JOB_IDS served_store = [''a''] \<and> RESULT_IDS served_store = [''r1'']
   \<and> RESULTS_CACHE served_store = [''r1'' \<mapsto> demo_result]
   \<and> dom (JOBS served_store) = {''a''}"
proof -
  obtain j where eq: "served_store =
      (publish ''r1'' demo_result (create_demo empty_store ''a''))\<lparr>JOBS := [''a'' \<mapsto> j]\<rparr>"
    using served_store_run by blast
  show ?thesis
    by (subst (1 2 3 4) eq)
       (simp add: publish_def create_demo_def register_job_def empty_store_def Let_def
        JOBS_SIZE_LIMIT_def CACHE_SIZE_LIMIT_def)
qed

lemma full_store_value:
  "JOB_IDS full_store = twenty_ids \<and> RESULTS_CACHE full_store = [''r1'' \<mapsto> demo_result]"
  using served_store_value
  by (simp add: full_store_def twenty_ids_def create_demo_def register_job_def Let_def
      JOBS_SIZE_LIMIT_def)

theorem registries_bounded_witness:
  "reachable full_store
   \<and> length (JOB_IDS full_store) = 20
   \<and> RESULTS_CACHE full_store ''r1'' = Some demo_result
   \<and> JOB_IDS (register_job ''u'' demo_job full_store) = tl twenty_ids @ [''u'']
   \<and> JOBS (register_job ''u'' demo_job full_store) ''a'' = None
   \<and> RESULTS_CACHE (register_job ''u'' demo_job full_store) ''r1'' = Some demo_result
   \<and> card (dom (JOBS (register_job ''u'' demo_job full_store))) \<le> 20"
proof -
  have "reachable (create_demo empty_store ''a'')"
    by (rule create_demo_reachable) (rule reachable.initial)
  moreover obtain j where
    "run_job_thread demo_env ''r1'' ''a'' (create_demo empty_store ''a'') world0
       = Some served_store"
    using served_store_run by blast
  ultimately have "reachable served_store" by (rule reachable.ran)
  then have r: "reachable full_store"
    unfolding full_store_def by (rule foldl_create_demo_reachable)
  note t = registries_bounded [OF r, where job_id = "''u''" and j = demo_job]
  have ids: "JOB_IDS full_store = twenty_ids"
    and cache: "RESULTS_CACHE full_store = [''r1'' \<mapsto> demo_result]"
    using full_store_value by simp_all
  have "length (JOB_IDS full_store) = 20" by (simp add: ids twenty_ids_def)
  moreover from t have "JOB_IDS (register_job ''u'' demo_job full_store) = tl twenty_ids @ [''u'']"
    by (simp add: ids twenty_ids_def)
  moreover from t have "JOBS (register_job ''u'' demo_job full_store) ''a'' = None"
    by (simp add: ids twenty_ids_def)
  moreover from t have "RESULTS_CACHE (register_job ''u'' demo_job full_store) ''r1''
      = Some demo_result"
    by (simp add: cache)
  moreover from t have "card (dom (JOBS (register_job ''u'' demo_job full_store))) \<le> 20"
    by blast
  ultimately show ?thesis using r cache by simp
qed

section \<open>Resuming a paused job\<close>

text \<open>
  Claim C6. \<^verbatim>\<open>crawl_resume\<close> answers with an error when the job is unknown, not
  paused, running or done. Otherwise it succeeds and stores the resumed job, in which
  \<open>seg_start\<close> is \<open>coverage_end + 1\<close> and \<open>window_blocks\<close> is the saved one, and these
  are the cursor and the window the relaunched loop starts from. The saved values are
  those of the pause: the window of the moment, and as \<open>coverage_end\<close> the end of the last
  completed segment.
\<close>

theorem crawl_resume_contract:
  "(JOBS s job_id = None \<longrightarrow> crawl_resume job_id s = Inl (''Job not found'', 404))
   \<and> (JOBS s job_id = Some j \<and> (\<not> paused j \<or> running j \<or> done_flag j) \<longrightarrow>
        (\<exists>msg. crawl_resume job_id s = Inl (msg, 400)))
   \<and> (JOBS s job_id = Some j \<and> paused j \<and> \<not> running j \<and> \<not> done_flag j \<longrightarrow>
        crawl_resume job_id s = Inr (s\<lparr>JOBS := (JOBS s)(job_id \<mapsto> resume_job j)\<rparr>)
        \<and> running (resume_job j) \<and> \<not> paused (resume_job j)
        \<and> \<not> stop_requested (resume_job j) \<and> error (resume_job j) = None)
   \<and> (coverage_end j = Some ce \<longrightarrow>
        seg_start (resume_job j) = ce + 1
        \<and> window_blocks (resume_job j) = window_blocks j
        \<and> l_seg_start (start_state (resume_job j) latest w) = ce + 1
        \<and> l_window_blocks (start_state (resume_job j) latest w) = window_blocks j)
   \<and> window_blocks (pause_job st) = l_window_blocks st
   \<and> (segments (rjob st) \<noteq> [] \<longrightarrow>
        coverage_end (pause_job st) = Some (sg_end (last (segments (rjob st)))))"
  by (auto simp: crawl_resume_def resume_job_def start_state_def initial_state_def
      pause_job_def Let_def split: option.splits)

theorem crawl_resume_contract_witness:
  "crawl_resume ''a'' (single_store demo_job) = Inl (''Job is not paused'', 400)
   \<and> (\<exists>j. final_job (run_job pausing_env ''r2'' demo_job empty_store world0) = Some j
        \<and> crawl_resume ''a'' (single_store j) = Inr (single_store (resume_job j))
        \<and> coverage_end j = Some 199999
        \<and> seg_start (resume_job j) = 200000
        \<and> l_seg_start (start_state (resume_job j) 300000 world0) = 200000
        \<and> l_window_blocks (start_state (resume_job j) 300000 world0) = 200000)"
proof -
  obtain j w where r: "run_job pausing_env ''r2'' demo_job empty_store world0
        = Some (Paused, j, empty_store, w)"
    and p: "paused j \<and> \<not> running j \<and> \<not> done_flag j"
    and c: "coverage_end j = Some 199999" and wb: "window_blocks j = 200000"
    using paused_run_value by blast
  have a: "JOBS (single_store j) ''a'' = Some j \<and> paused j \<and> \<not> running j \<and> \<not> done_flag j"
    using p by (simp add: single_store_def)
  have b: "JOBS (single_store demo_job) ''a'' = Some demo_job
      \<and> (\<not> paused demo_job \<or> running demo_job \<or> done_flag demo_job)"
    by (simp add: single_store_def demo_job_def new_job_def)
  from crawl_resume_contract [THEN conjunct2, THEN conjunct1, THEN mp, OF b]
  have 1: "crawl_resume ''a'' (single_store demo_job) = Inl (''Job is not paused'', 400)"
    by (auto simp: crawl_resume_def single_store_def demo_job_def new_job_def)
  from crawl_resume_contract [THEN conjunct2, THEN conjunct2, THEN conjunct1, THEN mp, OF a]
  have 2: "crawl_resume ''a'' (single_store j) = Inr (single_store (resume_job j))"
    by (simp add: single_store_def)
  from crawl_resume_contract
    [THEN conjunct2, THEN conjunct2, THEN conjunct2, THEN conjunct1, THEN mp, OF c,
     of 300000 world0]
  have 3: "seg_start (resume_job j) = 200000
        \<and> l_seg_start (start_state (resume_job j) 300000 world0) = 200000
        \<and> l_window_blocks (start_state (resume_job j) 300000 world0) = 200000"
    by (simp add: wb)
  from r have "final_job (run_job pausing_env ''r2'' demo_job empty_store world0) = Some j"
    by (simp add: final_job_def)
  with 1 2 3 c show ?thesis by blast
qed

section \<open>One pass of the crawl loop\<close>

lemma crawl_step_fetched:
  assumes more: "l_seg_start s \<le> latest"
    and nostop: "\<not> stop_requested_at e (clock (wld s))"
    and safe: "segment_num s + 1 \<le> SAFETY_MAX_SEGMENTS"
    and fetch: "fetch_txlist_window e
                  (window_args e (rjob s) (l_seg_start s)
                     (min (l_seg_start s + l_window_blocks s - 1) latest) (l_pages_total s))
                  ((wld s)\<lparr>clock := Suc (clock (wld s))\<rparr>) = Some (Inr r, w2)"
  shows "crawl_step e latest s =
           Some (after_fetch e (min (l_seg_start s + l_window_blocks s - 1) latest) r
                   (s\<lparr>segment_num := segment_num s + 1, wld := w2\<rparr>))"
  using assms by (simp add: crawl_step_def poll_stop_def Let_def)

text \<open>
  Claim C2. Take a pass of the loop that is not stopped, is within the safety limit and
  whose window fetch returns without pause or page-budget truncation.
  \<^item> If the fetch reports a cap hit that is resolvable, the loop goes on with the window
    halved (and not below 1), the same \<open>seg_start\<close> and the same segment count; no
    segment is appended and nothing is merged.
  \<^item> If the fetch reports no cap hit (and formatting the preview raises nothing), a
    segment for \<open>[seg_start, seg_end]\<close> is appended, \<open>seg_start\<close> becomes \<open>seg_end + 1\<close>,
    the segment is counted, and a window of at most \<open>MAX_WINDOW_BLOCKS\<close> becomes
    \<open>min (2 * window) MAX_WINDOW_BLOCKS\<close>.
  In both cases a window that was at most \<open>MAX_WINDOW_BLOCKS\<close> stays so.
\<close>

theorem crawl_step_window_adaptation:
  assumes more: "l_seg_start s \<le> latest"
    and nostop: "\<not> stop_requested_at e (clock (wld s))"
    and safe: "segment_num s + 1 \<le> SAFETY_MAX_SEGMENTS"
    and fetch: "fetch_txlist_window e
                  (window_args e (rjob s) (l_seg_start s)
                     (min (l_seg_start s + l_window_blocks s - 1) latest) (l_pages_total s))
                  ((wld s)\<lparr>clock := Suc (clock (wld s))\<rparr>) = Some (Inr r, w2)"
    and nopause: "\<not> paused_hit r" and nobudget: "\<not> truncated r"
  shows
    "(cap_hit r \<and> \<not> cap_unresolvable r \<longrightarrow>
        (\<exists>s'. crawl_step e latest s = Some (Inl s')
              \<and> l_window_blocks s' = max (l_window_blocks s div 2) 1
              \<and> l_window_blocks s' < l_window_blocks s
              \<and> l_seg_start s' = l_seg_start s
              \<and> segment_num s' = segment_num s
              \<and> segments (rjob s') = segments (rjob s)
              \<and> seen_hashes (rjob s') = seen_hashes (rjob s)
              \<and> segments_done (rjob s') = segments_done (rjob s)
              \<and> seg_start (rjob s') = seg_start (rjob s)
              \<and> coverage_end (rjob s') = coverage_end (rjob s)))
     \<and> (\<not> cap_hit r
          \<and> fst (format_preview e (address (rjob s)) (eth_preview (rjob s)) (txs_list r)) = None
         \<longrightarrow>
        (\<exists>s'. crawl_step e latest s = Some (Inl s')
              \<and> segments (rjob s') = segments (rjob s) @
                   [\<lparr>sg_start = l_seg_start s,
                     sg_end = min (l_seg_start s + l_window_blocks s - 1) latest,
                     sg_pages = pages_used r, sg_tx_count = int (length (txs_list r)),
                     sg_cap_hit = False\<rparr>]
              \<and> seen_hashes (rjob s') = merge_txs (seen_hashes (rjob s)) (txs_list r)
              \<and> l_seg_start s' = min (l_seg_start s + l_window_blocks s - 1) latest + 1
              \<and> seg_start (rjob s') = min (l_seg_start s + l_window_blocks s - 1) latest + 1
              \<and> coverage_end (rjob s') =
                   Some (min (l_seg_start s + l_window_blocks s - 1) latest)
              \<and> segment_num s' = segment_num s + 1
              \<and> segments_done (rjob s') = segment_num s + 1
              \<and> (l_window_blocks s \<le> MAX_WINDOW_BLOCKS \<longrightarrow>
                    l_window_blocks s' = min (l_window_blocks s * 2) MAX_WINDOW_BLOCKS)))"
proof (rule conjI; rule impI)
  let ?se = "min (l_seg_start s + l_window_blocks s - 1) latest"
  let ?s1 = "s\<lparr>segment_num := segment_num s + 1, wld := w2\<rparr>"
  have step: "crawl_step e latest s = Some (after_fetch e ?se r ?s1)"
    using more nostop safe fetch by (rule crawl_step_fetched)
  {
    assume cap: "cap_hit r \<and> \<not> cap_unresolvable r"
    from fetch_txlist_window_unresolvable [OF fetch] cap
    have "\<not> ?se - l_seg_start s + 1 \<le> MIN_WINDOW_BLOCKS"
      by (simp add: window_args_def)
    then have wide: "l_window_blocks s > MIN_WINDOW_BLOCKS"
      by (auto simp: MIN_WINDOW_BLOCKS_def min_def split: if_splits)
    let ?wb = "max (l_window_blocks s div 2) MIN_WINDOW_BLOCKS"
    have "after_fetch e ?se r ?s1 =
            Inl (?s1\<lparr>l_pages_total := l_pages_total s + pages_used r,
                     l_window_blocks := ?wb, segment_num := segment_num s,
                     rjob := flag_window ?wb (rjob s)\<rparr>)"
      using cap wide nopause nobudget by (simp add: after_fetch_def Let_def)
    moreover have "segments (flag_window ?wb (rjob s)) = segments (rjob s)
        \<and> seen_hashes (flag_window ?wb (rjob s)) = seen_hashes (rjob s)
        \<and> segments_done (flag_window ?wb (rjob s)) = segments_done (rjob s)
        \<and> seg_start (flag_window ?wb (rjob s)) = seg_start (rjob s)
        \<and> coverage_end (flag_window ?wb (rjob s)) = coverage_end (rjob s)"
      by (simp add: flag_window_def)
    moreover have "?wb = max (l_window_blocks s div 2) 1 \<and> ?wb < l_window_blocks s
        \<and> 1 < l_window_blocks s"
      using wide by (auto simp: MIN_WINDOW_BLOCKS_def)
    ultimately show "\<exists>s'. crawl_step e latest s = Some (Inl s')
              \<and> l_window_blocks s' = max (l_window_blocks s div 2) 1
              \<and> l_window_blocks s' < l_window_blocks s
              \<and> l_seg_start s' = l_seg_start s
              \<and> segment_num s' = segment_num s
              \<and> segments (rjob s') = segments (rjob s)
              \<and> seen_hashes (rjob s') = seen_hashes (rjob s)
              \<and> segments_done (rjob s') = segments_done (rjob s)
              \<and> seg_start (rjob s') = seg_start (rjob s)
              \<and> coverage_end (rjob s') = coverage_end (rjob s)"
      using step by simp
  }
  {
    assume ok: "\<not> cap_hit r
          \<and> fst (format_preview e (address (rjob s)) (eth_preview (rjob s)) (txs_list r)) = None"
    then obtain fp where fp:
      "format_preview e (address (rjob s)) (eth_preview (rjob s)) (txs_list r) = (None, fp)"
      by (cases "format_preview e (address (rjob s)) (eth_preview (rjob s)) (txs_list r)") auto
    let ?s2 = "?s1\<lparr>l_pages_total := l_pages_total s + pages_used r\<rparr>"
    have a: "after_fetch e ?se r ?s1 = complete_segment e ?se r ?s2"
      using ok nopause nobudget by (simp add: after_fetch_def Let_def)
    obtain s' where c: "complete_segment e ?se r ?s2 = Inl s'"
      and f: "segments (rjob s') = segments (rjob s) @
                   [\<lparr>sg_start = l_seg_start s, sg_end = ?se,
                     sg_pages = pages_used r, sg_tx_count = int (length (txs_list r)),
                     sg_cap_hit = False\<rparr>]"
        "seen_hashes (rjob s') = merge_txs (seen_hashes (rjob s)) (txs_list r)"
        "l_seg_start s' = ?se + 1" "seg_start (rjob s') = ?se + 1"
        "coverage_end (rjob s') = Some ?se"
        "segment_num s' = segment_num s + 1" "segments_done (rjob s') = segment_num s + 1"
        "l_window_blocks s \<le> MAX_WINDOW_BLOCKS \<longrightarrow>
           l_window_blocks s' = min (l_window_blocks s * 2) MAX_WINDOW_BLOCKS"
      using fp
      by (simp add: complete_segment_def merged_job_def saved_job_def Let_def flag_window_def flag_segments_def
          MAX_WINDOW_BLOCKS_def)
    with step a show "\<exists>s'. crawl_step e latest s = Some (Inl s')
              \<and> segments (rjob s') = segments (rjob s) @
                   [\<lparr>sg_start = l_seg_start s, sg_end = ?se,
                     sg_pages = pages_used r, sg_tx_count = int (length (txs_list r)),
                     sg_cap_hit = False\<rparr>]
              \<and> seen_hashes (rjob s') = merge_txs (seen_hashes (rjob s)) (txs_list r)
              \<and> l_seg_start s' = ?se + 1
              \<and> seg_start (rjob s') = ?se + 1
              \<and> coverage_end (rjob s') = Some ?se
              \<and> segment_num s' = segment_num s + 1
              \<and> segments_done (rjob s') = segment_num s + 1
              \<and> (l_window_blocks s \<le> MAX_WINDOW_BLOCKS \<longrightarrow>
                    l_window_blocks s' = min (l_window_blocks s * 2) MAX_WINDOW_BLOCKS)"
      by simp
  }
qed

theorem crawl_step_window_adaptation_witness:
  "(\<exists>s'. crawl_step busy_env 10 (start_state busy_job 10 world0) = Some (Inl s')
         \<and> l_window_blocks s' = 100000 \<and> l_seg_start s' = 0 \<and> segment_num s' = 0
         \<and> segments (rjob s') = [])
   \<and> (\<exists>s'. crawl_step demo_env 10 ((start_state demo_job 10 world0)\<lparr>l_window_blocks := 100000\<rparr>)
               = Some (Inl s')
         \<and> l_window_blocks s' = 200000 \<and> l_seg_start s' = 11 \<and> segment_num s' = 1
         \<and> segments (rjob s') =
              [\<lparr>sg_start = 0, sg_end = 10, sg_pages = 1, sg_tx_count = 3, sg_cap_hit = False\<rparr>])"
proof -
  let ?b = "start_state busy_job 10 world0"
  let ?d = "(start_state demo_job 10 world0)\<lparr>l_window_blocks := 100000\<rparr>"
  obtain c w where bf: "fetch_txlist_window busy_env (window_args busy_env busy_job 0 10 0)
            \<lparr>clock = 1, requests = [], merged = []\<rparr>
       = Some (Inr (window_return c 21 True False False False), w)"
    using busy_fetch_value by blast
  obtain w' where df: "fetch_txlist_window demo_env (window_args demo_env demo_job 0 10 0)
            \<lparr>clock = 1, requests = [], merged = []\<rparr>
       = Some (Inr (window_return [tx_a, tx_b, tx_a] 1 False False False False), w')"
    using demo_fetch_value by blast
  have b1: "l_seg_start ?b \<le> 10" "\<not> stop_requested_at busy_env (clock (wld ?b))"
    "segment_num ?b + 1 \<le> SAFETY_MAX_SEGMENTS"
    by (simp_all add: start_state_def initial_state_def busy_job_def new_job_def world0_def
        busy_env_def flat_upstream_def SAFETY_MAX_SEGMENTS_def)
  have b2: "fetch_txlist_window busy_env
              (window_args busy_env (rjob ?b) (l_seg_start ?b)
                 (min (l_seg_start ?b + l_window_blocks ?b - 1) 10) (l_pages_total ?b))
              ((wld ?b)\<lparr>clock := Suc (clock (wld ?b))\<rparr>)
            = Some (Inr (window_return c 21 True False False False), w)"
    using bf
    by (simp add: start_state_def initial_state_def busy_job_def new_job_def world0_def
        window_args_def MAX_WINDOW_BLOCKS_def)
  have d1: "l_seg_start ?d \<le> 10" "\<not> stop_requested_at demo_env (clock (wld ?d))"
    "segment_num ?d + 1 \<le> SAFETY_MAX_SEGMENTS"
    by (simp_all add: start_state_def initial_state_def demo_job_def new_job_def world0_def
        demo_env_def flat_upstream_def SAFETY_MAX_SEGMENTS_def)
  have d2: "fetch_txlist_window demo_env
              (window_args demo_env (rjob ?d) (l_seg_start ?d)
                 (min (l_seg_start ?d + l_window_blocks ?d - 1) 10) (l_pages_total ?d))
              ((wld ?d)\<lparr>clock := Suc (clock (wld ?d))\<rparr>)
            = Some (Inr (window_return [tx_a, tx_b, tx_a] 1 False False False False), w')"
    using df
    by (simp add: start_state_def initial_state_def demo_job_def new_job_def world0_def
        window_args_def)
  have fl: "\<not> paused_hit (window_return c p ch False False cu)"
    "\<not> truncated (window_return c p ch False False cu)" for c p ch cu
    by (simp_all add: window_return_def)
  note tb = crawl_step_window_adaptation [OF b1 b2 fl, THEN conjunct1, THEN mp]
  note td = crawl_step_window_adaptation [OF d1 d2 fl, THEN conjunct2, THEN mp]
  have "\<exists>s'. crawl_step busy_env 10 ?b = Some (Inl s')
         \<and> l_window_blocks s' = 100000 \<and> l_seg_start s' = 0 \<and> segment_num s' = 0
         \<and> segments (rjob s') = []"
    using tb
    by (simp add: window_return_def start_state_def initial_state_def busy_job_def new_job_def
        MAX_WINDOW_BLOCKS_def) blast
  moreover have "\<exists>s'. crawl_step demo_env 10 ?d = Some (Inl s')
         \<and> l_window_blocks s' = 200000 \<and> l_seg_start s' = 11 \<and> segment_num s' = 1
         \<and> segments (rjob s') =
              [\<lparr>sg_start = 0, sg_end = 10, sg_pages = 1, sg_tx_count = 3, sg_cap_hit = False\<rparr>]"
    using td
    by (simp add: window_return_def start_state_def initial_state_def demo_job_def new_job_def
        MAX_WINDOW_BLOCKS_def demo_env_def flat_upstream_def tx_a_def tx_b_def) blast
  ultimately show ?thesis by blast
qed

section \<open>The page budget\<close>

lemma fetch_page_flags:
  "fetch_page e a s = Inr (Inr r, w') \<Longrightarrow>
     (truncated r \<longrightarrow> \<not> paused_hit r \<and> \<not> cap_hit r) \<and> (paused_hit r \<longrightarrow> \<not> cap_hit r)"
  by (cases s) (auto simp: fetch_page_def window_return_def
      split: prod.splits if_splits sum.splits option.splits)

lemma fetch_txlist_window_flags:
  assumes "fetch_txlist_window e a w = Some (Inr r, w')"
  shows "(truncated r \<longrightarrow> \<not> paused_hit r \<and> \<not> cap_hit r) \<and> (paused_hit r \<longrightarrow> \<not> cap_hit r)"
proof -
  from assms have "fetch_loop e a ([], 1, w) = Some (Inr r, w')"
    by (auto simp: fetch_txlist_window_def split: if_splits)
  then show ?thesis
    by (rule fetch_loop_rule [where I = "\<lambda>_. True" and Q = "\<lambda>out. \<forall>r w'. out = (Inr r, w') \<longrightarrow>
          (truncated r \<longrightarrow> \<not> paused_hit r \<and> \<not> cap_hit r) \<and> (paused_hit r \<longrightarrow> \<not> cap_hit r)",
          rule_format])
       (auto dest: fetch_page_flags)
qed

lemma complete_segment_exit:
  "complete_segment e se r s = Inr (ex, s') \<Longrightarrow> \<exists>x. ex = Raised x"
  by (auto simp: complete_segment_def merged_job_def saved_job_def Let_def split: prod.splits option.splits)

lemma after_fetch_budget:
  assumes "after_fetch e se r s = Inr (BudgetStop, s')"
  shows "rjob s' = fail_job ''Stopped due to max_pages limit'' (rjob s)"
proof -
  let ?s = "s\<lparr>l_pages_total := l_pages_total s + pages_used r\<rparr>"
  have "complete_segment e se r ?s \<noteq> Inr (BudgetStop, s')"
    using complete_segment_exit [of e se r ?s BudgetStop s'] by auto
  with assms show ?thesis
    by (auto simp: after_fetch_def Let_def split: if_splits)
qed

lemma crawl_step_budget:
  assumes "crawl_step e latest s = Some (Inr (BudgetStop, s'))"
  shows "error (rjob s') = Some ''Stopped due to max_pages limit''
         \<and> done_flag (rjob s') \<and> \<not> running (rjob s')"
proof -
  from assms obtain se r s1 where "after_fetch e se r s1 = Inr (BudgetStop, s')"
    by (auto simp: crawl_step_def Let_def
        split: if_splits prod.splits option.splits sum.splits)
  then have "rjob s' = fail_job ''Stopped due to max_pages limit'' (rjob s1)"
    by (rule after_fetch_budget)
  then show ?thesis by (simp add: fail_job_def)
qed

lemma crawl_loop_budget:
  assumes "crawl_loop e latest s = Some (BudgetStop, s')"
  shows "error (rjob s') = Some ''Stopped due to max_pages limit''
         \<and> done_flag (rjob s') \<and> \<not> running (rjob s')"
proof -
  have "\<forall>t. (BudgetStop, s') = (BudgetStop, t) \<longrightarrow>
          error (rjob t) = Some ''Stopped due to max_pages limit''
          \<and> done_flag (rjob t) \<and> \<not> running (rjob t)"
    by (rule crawl_loop_rule [OF assms, where I = "\<lambda>_. True"
          and Q = "\<lambda>out. \<forall>t. out = (BudgetStop, t) \<longrightarrow>
                error (rjob t) = Some ''Stopped due to max_pages limit''
                \<and> done_flag (rjob t) \<and> \<not> running (rjob t)"])
       (auto dest: crawl_step_budget)
  then show ?thesis by simp
qed

lemma finalize_cases:
  assumes "finalize e result_id latest j st = (j', st')"
  shows "(\<exists>x. error j' = Some (''Error: '' @ str_of x) \<and> done_flag j' \<and> \<not> running j'
              \<and> st' = st \<and> rid j' = rid j)
       \<or> (\<exists>res. st' = publish result_id res st
              \<and> sorted_txs e (map snd (seen_hashes j)) = Inr (eth_txs res)
              \<and> token_txs_data e j = Inr (token_txs res)
              \<and> r_segments res = segments j
              \<and> r_include_tokens res = include_tokens j
              \<and> done_flag j' \<and> \<not> running j' \<and> rid j' = Some result_id
              \<and> error j' = error j \<and> seen_hashes j' = seen_hashes j
              \<and> token_seen_hashes j' = token_seen_hashes j)"
proof (cases "sorted_txs e (map snd (seen_hashes j))")
  case (Inl x)
  with assms show ?thesis
    by (auto simp: finalize_def job_error_def fail_job_def)
next
  case (Inr txs)
  let ?j1 = "j\<lparr>coverage_end :=
               Some (if segments j = [] then latest else sg_end (last (segments j)))\<rparr>"
  have tk: "token_txs_data e ?j1 = token_txs_data e j"
    by (simp add: token_txs_data_def)
  show ?thesis
  proof (cases "token_txs_data e j")
    case (Inl x)
    with assms Inr tk show ?thesis
      by (auto simp: finalize_def Let_def job_error_def fail_job_def)
  next
    case tok: (Inr t)
    with assms Inr tk show ?thesis
      by (auto simp: finalize_def Let_def)
  qed
qed

lemma finalize_outcome:
  assumes "finalize e result_id latest j st = (j', st')"
  shows "done_flag j' \<and> \<not> running j'
     \<and> (case sorted_txs e (map snd (seen_hashes j')) of
           Inl x \<Rightarrow> error j' = Some (''Error: '' @ str_of x) \<and> st' = st
         | Inr txs \<Rightarrow>
             (case token_txs_data e j' of
                Inl x \<Rightarrow> error j' = Some (''Error: '' @ str_of x) \<and> st' = st
              | Inr tk \<Rightarrow>
                  error j' = error j \<and> rid j' = Some result_id
                  \<and> (\<exists>res. st' = publish result_id res st \<and> eth_txs res = txs
                           \<and> eth_total res = int (length txs) \<and> token_txs res = tk)))"
proof -
  let ?j1 = "j\<lparr>coverage_end :=
               Some (if segments j = [] then latest else sg_end (last (segments j)))\<rparr>"
  have tk1: "token_txs_data e ?j1 = token_txs_data e j"
    by (simp add: token_txs_data_def)
  have keep: "seen_hashes j' = seen_hashes j \<and> token_txs_data e j' = token_txs_data e j"
    using assms tk1
    by (auto simp: finalize_def Let_def job_error_def fail_job_def token_txs_data_def
        split: sum.splits)
  show ?thesis
  proof (cases "sorted_txs e (map snd (seen_hashes j))")
    case (Inl x)
    with assms keep show ?thesis
      by (auto simp: finalize_def job_error_def fail_job_def)
  next
    case (Inr txs)
    show ?thesis
    proof (cases "token_txs_data e j")
      case (Inl x)
      with assms Inr tk1 keep show ?thesis
        by (auto simp: finalize_def Let_def job_error_def fail_job_def)
    next
      case tok: (Inr t)
      with assms Inr tk1 keep show ?thesis
        by (auto simp: finalize_def Let_def)
    qed
  qed
qed

text \<open>
  Claim C5, amended. When a window fetch reports that the page budget would be exceeded,
  the loop is left at once: the job is marked done and not running, and the message
  \<^verbatim>\<open>Stopped due to max_pages limit\<close> is stored in its \<open>error\<close> key. The run then goes on
  to the code after the loop. Unless a sort raises there (then the handler stores
  \<^verbatim>\<open>Error: ...\<close> and nothing is published), the records of the job's accumulator are
  sorted and published as a result under \<open>result_id\<close>, \<open>rid\<close> is set, and the message stays
  in \<open>error\<close>.
\<close>

theorem budget_stop_marks_done:
  "(l_seg_start s \<le> latest \<and> \<not> stop_requested_at e (clock (wld s))
      \<and> segment_num s + 1 \<le> SAFETY_MAX_SEGMENTS
      \<and> fetch_txlist_window e
           (window_args e (rjob s) (l_seg_start s)
              (min (l_seg_start s + l_window_blocks s - 1) latest) (l_pages_total s))
           ((wld s)\<lparr>clock := Suc (clock (wld s))\<rparr>) = Some (Inr r, w2)
      \<and> truncated r \<longrightarrow>
        (\<exists>s'. crawl_loop e latest s = Some (BudgetStop, s')
              \<and> error (rjob s') = Some ''Stopped due to max_pages limit''
              \<and> done_flag (rjob s') \<and> \<not> running (rjob s')))
   \<and> (run_job e result_id j st w = Some (BudgetStop, j', st', w') \<longrightarrow>
        done_flag j' \<and> \<not> running j'
        \<and> (case sorted_txs e (map snd (seen_hashes j')) of
              Inl x \<Rightarrow> error j' = Some (''Error: '' @ str_of x) \<and> st' = st
            | Inr txs \<Rightarrow>
                (case token_txs_data e j' of
                   Inl x \<Rightarrow> error j' = Some (''Error: '' @ str_of x) \<and> st' = st
                 | Inr tk \<Rightarrow>
                     error j' = Some ''Stopped due to max_pages limit''
                     \<and> rid j' = Some result_id
                     \<and> (\<exists>res. st' = publish result_id res st \<and> eth_txs res = txs
                              \<and> eth_total res = int (length txs) \<and> token_txs res = tk))))"
proof (rule conjI; rule impI)
  assume a: "l_seg_start s \<le> latest \<and> \<not> stop_requested_at e (clock (wld s))
      \<and> segment_num s + 1 \<le> SAFETY_MAX_SEGMENTS
      \<and> fetch_txlist_window e
           (window_args e (rjob s) (l_seg_start s)
              (min (l_seg_start s + l_window_blocks s - 1) latest) (l_pages_total s))
           ((wld s)\<lparr>clock := Suc (clock (wld s))\<rparr>) = Some (Inr r, w2)
      \<and> truncated r"
  let ?se = "min (l_seg_start s + l_window_blocks s - 1) latest"
  let ?s1 = "s\<lparr>segment_num := segment_num s + 1, wld := w2\<rparr>"
  let ?s' = "?s1\<lparr>l_pages_total := l_pages_total s + pages_used r,
             rjob := fail_job ''Stopped due to max_pages limit'' (rjob s)\<rparr>"
  from a have step: "crawl_step e latest s = Some (after_fetch e ?se r ?s1)"
    by (intro crawl_step_fetched) simp_all
  from a have "\<not> paused_hit r" using fetch_txlist_window_flags by blast
  with a have "after_fetch e ?se r ?s1 = Inr (BudgetStop, ?s')"
    by (simp add: after_fetch_def Let_def)
  with step have "crawl_step e latest s = Some (Inr (BudgetStop, ?s'))" by simp
  then have "crawl_loop e latest s = Some (BudgetStop, ?s')" by (rule crawl_loop_exit)
  moreover have "error (rjob ?s') = Some ''Stopped due to max_pages limit''
      \<and> done_flag (rjob ?s') \<and> \<not> running (rjob ?s')"
    by (simp add: fail_job_def)
  ultimately show "\<exists>s'. crawl_loop e latest s = Some (BudgetStop, s')
              \<and> error (rjob s') = Some ''Stopped due to max_pages limit''
              \<and> done_flag (rjob s') \<and> \<not> running (rjob s')"
    by blast
next
  assume "run_job e result_id j st w = Some (BudgetStop, j', st', w')"
  then show "done_flag j' \<and> \<not> running j'
        \<and> (case sorted_txs e (map snd (seen_hashes j')) of
              Inl x \<Rightarrow> error j' = Some (''Error: '' @ str_of x) \<and> st' = st
            | Inr txs \<Rightarrow>
                (case token_txs_data e j' of
                   Inl x \<Rightarrow> error j' = Some (''Error: '' @ str_of x) \<and> st' = st
                 | Inr tk \<Rightarrow>
                     error j' = Some ''Stopped due to max_pages limit''
                     \<and> rid j' = Some result_id
                     \<and> (\<exists>res. st' = publish result_id res st \<and> eth_txs res = txs
                              \<and> eth_total res = int (length txs) \<and> token_txs res = tk)))"
  proof (cases rule: run_job_cases)
    case (no_tip x)
    then show ?thesis by simp
  next
    case (looped latest s)
    from crawl_loop_budget [OF looped(2)]
    have b: "error (rjob s) = Some ''Stopped due to max_pages limit''"
      by simp
    from looped(3) have "finalize e result_id latest (rjob s) st = (j', st')"
      by (simp add: after_loop_def)
    from finalize_outcome [OF this] b show ?thesis
      by (simp split: sum.splits)
  qed
qed

theorem budget_stop_marks_done_witness:
  "final_exit (run_job budget_env ''r3'' budget_job empty_store world0) = Some BudgetStop
   \<and> map_option done_flag (final_job (run_job budget_env ''r3'' budget_job empty_store world0))
       = Some True
   \<and> map_option running (final_job (run_job budget_env ''r3'' budget_job empty_store world0))
       = Some False
   \<and> map_option error (final_job (run_job budget_env ''r3'' budget_job empty_store world0))
       = Some (Some ''Stopped due to max_pages limit'')
   \<and> map_option rid (final_job (run_job budget_env ''r3'' budget_job empty_store world0))
       = Some (Some ''r3'')
   \<and> published ''r3'' (run_job budget_env ''r3'' budget_job empty_store world0)
       = Some budget_result
   \<and> final_exit (run_job full_page_env ''r4'' budget_job empty_store world0)
       = Some BudgetStop
   \<and> map_option error (final_job (run_job full_page_env ''r4'' budget_job empty_store world0))
       = Some (Some ''Stopped due to max_pages limit'')
   \<and> map_option rid (final_job (run_job full_page_env ''r4'' budget_job empty_store world0))
       = Some (Some ''r4'')
   \<and> published ''r4'' (run_job full_page_env ''r4'' budget_job empty_store world0)
       = Some first_window_result
   \<and> map_option (\<lambda>w. length (requests w))
        (final_world (run_job full_page_env ''r4'' budget_job empty_store world0)) = Some 1"
proof -
  obtain j w where r: "run_job budget_env ''r3'' budget_job empty_store world0
        = Some (BudgetStop, j, publish ''r3'' budget_result empty_store, w)"
    and s: "seen_hashes j = [(''0xa'', tx_a)]"
    using budget_run_value by blast
  have sorted: "sorted_txs budget_env (map snd (seen_hashes j)) = Inr [tx_a]"
    by (simp add: s sorted_txs_def sort_key_of_def int_field_def budget_env_def
        long_upstream_def tx_a_def)
  have tok: "token_txs_data budget_env j = Inr None"
    using run_job_kept [OF r]
    by (simp add: token_txs_data_def job_frame_def budget_job_def new_job_def)
  from budget_stop_marks_done [THEN conjunct2, THEN mp, OF r]
  have f: "done_flag j \<and> \<not> running j
      \<and> error j = Some ''Stopped due to max_pages limit'' \<and> rid j = Some ''r3''"
    by (simp add: sorted tok)
  have p: "RESULTS_CACHE (publish ''r3'' budget_result empty_store) ''r3''
      = Some budget_result"
    by (simp add: publish_def empty_store_def Let_def CACHE_SIZE_LIMIT_def)
  obtain j4 w4 where r4: "run_job full_page_env ''r4'' budget_job empty_store world0
        = Some (BudgetStop, j4, publish ''r4'' first_window_result empty_store, w4)"
    and s4: "seen_hashes j4 = []"
    and q4: "requests w4 = [\<lparr>rq_start = 0, rq_end = 199999, rq_page = 1, rq_offset = 50\<rparr>]"
    using first_window_run_value by blast
  have sorted4: "sorted_txs full_page_env (map snd (seen_hashes j4)) = Inr []"
    by (simp add: s4 sorted_txs_def)
  have tok4: "token_txs_data full_page_env j4 = Inr None"
    using run_job_kept [OF r4]
    by (simp add: token_txs_data_def job_frame_def budget_job_def new_job_def)
  from budget_stop_marks_done [THEN conjunct2, THEN mp, OF r4]
  have f4: "error j4 = Some ''Stopped due to max_pages limit'' \<and> rid j4 = Some ''r4''"
    by (simp add: sorted4 tok4)
  have p4: "RESULTS_CACHE (publish ''r4'' first_window_result empty_store) ''r4''
      = Some first_window_result"
    by (simp add: publish_def empty_store_def Let_def CACHE_SIZE_LIMIT_def)
  show ?thesis
    using f p f4 p4 q4
    by (simp add: r r4 final_exit_def final_job_def final_world_def published_def)
qed

text \<open>
  The claim as stated says that no error is recorded. On the job with a budget of one
  page the run ends with the message in the job's \<open>error\<close> key.
\<close>

theorem budget_stop_records_error:
  "map_option error (final_job (run_job budget_env ''r3'' budget_job empty_store world0))
     = Some (Some ''Stopped due to max_pages limit'')"
proof -
  obtain j w where "run_job budget_env ''r3'' budget_job empty_store world0
        = Some (BudgetStop, j, publish ''r3'' budget_result empty_store, w)"
    and "error j = Some ''Stopped due to max_pages limit''"
    using budget_run_value by blast
  then show ?thesis by (simp add: final_job_def)
qed
section \<open>Token transfers\<close>

lemma pause_job_tokens:
  "pause_job (with_tokens b s) = (pause_job s)\<lparr>include_tokens := b\<rparr>"
  by (simp add: pause_job_def with_tokens_def Let_def)

lemma fail_job_tokens:
  "fail_job m (j\<lparr>include_tokens := b\<rparr>) = (fail_job m j)\<lparr>include_tokens := b\<rparr>"
  by (simp add: fail_job_def)

lemma flag_window_tokens:
  "flag_window wb (j\<lparr>include_tokens := b\<rparr>) = (flag_window wb j)\<lparr>include_tokens := b\<rparr>"
  by (simp add: flag_window_def)

lemma flag_segments_tokens:
  "flag_segments n (j\<lparr>include_tokens := b\<rparr>) = (flag_segments n j)\<lparr>include_tokens := b\<rparr>"
  by (simp add: flag_segments_def)

lemma window_args_tokens:
  "window_args e (j\<lparr>include_tokens := b\<rparr>) ss se pt = window_args e j ss se pt"
  by (simp add: window_args_def)

lemma with_tokens_fields [simp]:
  "rjob (with_tokens b s) = (rjob s)\<lparr>include_tokens := b\<rparr>"
  "l_pages_total (with_tokens b s) = l_pages_total s"
  "l_window_blocks (with_tokens b s) = l_window_blocks s"
  "l_seg_start (with_tokens b s) = l_seg_start s"
  "segment_num (with_tokens b s) = segment_num s"
  "wld (with_tokens b s) = wld s"
  by (simp_all add: with_tokens_def)

lemma with_tokens_updates:
  "(with_tokens b s)\<lparr>l_pages_total := x\<rparr> = with_tokens b (s\<lparr>l_pages_total := x\<rparr>)"
  "(with_tokens b s)\<lparr>segment_num := n\<rparr> = with_tokens b (s\<lparr>segment_num := n\<rparr>)"
  "(with_tokens b s)\<lparr>wld := w\<rparr> = with_tokens b (s\<lparr>wld := w\<rparr>)"
  by (simp_all add: with_tokens_def)

lemma merged_job_tokens:
  "merged_job se r (with_tokens b s) = (merged_job se r s)\<lparr>include_tokens := b\<rparr>"
  by (simp add: merged_job_def)

lemma saved_job_tokens:
  "saved_job se r fp (with_tokens b s) = (saved_job se r fp s)\<lparr>include_tokens := b\<rparr>"
  by (simp add: saved_job_def merged_job_tokens Let_def)

lemma complete_segment_tokens:
  "complete_segment e se r (with_tokens b s) =
     map_sum (with_tokens b) (map_prod id (with_tokens b)) (complete_segment e se r s)"
proof -
  obtain x fp where fp:
    "format_preview e (address (rjob s)) (eth_preview (rjob s)) (txs_list r) = (x, fp)"
    by force
  show ?thesis
  proof (cases x)
    case None
    with fp show ?thesis
      by (simp add: complete_segment_def saved_job_tokens flag_window_tokens
          flag_segments_tokens)
         (simp add: with_tokens_def)?
  next
    case (Some y)
    with fp show ?thesis
      by (simp add: complete_segment_def merged_job_tokens)
         (simp add: with_tokens_def)?
  qed
qed

lemma after_fetch_tokens:
  "after_fetch e se r (with_tokens b s) =
     map_sum (with_tokens b) (map_prod id (with_tokens b)) (after_fetch e se r s)"
proof -
  let ?s = "s\<lparr>l_pages_total := l_pages_total s + pages_used r\<rparr>"
  have c: "complete_segment e se r (with_tokens b ?s) =
     map_sum (with_tokens b) (map_prod id (with_tokens b)) (complete_segment e se r ?s)"
    by (rule complete_segment_tokens)
  have p: "pause_job (with_tokens b ?s) = (pause_job ?s)\<lparr>include_tokens := b\<rparr>"
    by (rule pause_job_tokens)
  show ?thesis
    by (simp add: after_fetch_def Let_def with_tokens_updates c p fail_job_tokens
        flag_window_tokens)
       (simp add: with_tokens_def)?
qed

lemma crawl_step_tokens:
  "crawl_step e latest (with_tokens b s) =
     map_option (map_sum (with_tokens b) (map_prod id (with_tokens b))) (crawl_step e latest s)"
proof (cases "l_seg_start s \<le> latest")
  case False
  then show ?thesis by (simp add: crawl_step_def with_tokens_def)
next
  case True
  obtain stop w1 where poll: "poll_stop (Some (stop_requested_at e)) (wld s) = (stop, w1)"
    by force
  show ?thesis
  proof (cases stop)
    case True
    have "pause_job (with_tokens b s) = (pause_job s)\<lparr>include_tokens := b\<rparr>"
      by (rule pause_job_tokens)
    with True \<open>l_seg_start s \<le> latest\<close> poll show ?thesis
      by (simp add: crawl_step_def) (simp add: with_tokens_def)?
  next
    case nostop: False
    let ?s1 = "s\<lparr>segment_num := segment_num s + 1, wld := w1\<rparr>"
    let ?se = "min (l_seg_start s + l_window_blocks s - 1) latest"
    show ?thesis
    proof (cases "segment_num ?s1 > SAFETY_MAX_SEGMENTS")
      case True
      with \<open>l_seg_start s \<le> latest\<close> poll nostop show ?thesis
        by (simp add: crawl_step_def Let_def fail_job_tokens) (simp add: with_tokens_def)?
    next
      case False
      let ?a = "window_args e (rjob ?s1) (l_seg_start ?s1) ?se (l_pages_total ?s1)"
      have pre: "l_seg_start (with_tokens b s) \<le> latest"
        "poll_stop (Some (stop_requested_at e)) (wld (with_tokens b s)) = (stop, w1)"
        using \<open>l_seg_start s \<le> latest\<close> poll by simp_all
      show ?thesis
      proof (cases "fetch_txlist_window e ?a w1")
        case None
        with \<open>l_seg_start s \<le> latest\<close> poll pre nostop False show ?thesis
          by (simp add: crawl_step_def Let_def window_args_tokens)
      next
        case (Some p)
        obtain out w2 where p: "p = (out, w2)" by (cases p)
        show ?thesis
        proof (cases out)
          case (Inl x)
          with Some p \<open>l_seg_start s \<le> latest\<close> poll pre nostop False show ?thesis
            by (simp add: crawl_step_def Let_def window_args_tokens)
               (simp add: with_tokens_def)?
        next
          case (Inr r)
          have "after_fetch e ?se r (with_tokens b (?s1\<lparr>wld := w2\<rparr>)) =
              map_sum (with_tokens b) (map_prod id (with_tokens b))
                (after_fetch e ?se r (?s1\<lparr>wld := w2\<rparr>))"
            by (rule after_fetch_tokens)
          with Inr Some p \<open>l_seg_start s \<le> latest\<close> poll pre nostop False show ?thesis
            by (simp add: crawl_step_def Let_def window_args_tokens with_tokens_updates)
        qed
      qed
    qed
  qed
qed

lemma crawl_loop_tokens_Some:
  assumes "crawl_loop e latest s = Some (ex, s')"
  shows "crawl_loop e latest (with_tokens b s) = Some (ex, with_tokens b s')"
proof -
  have "crawl_loop e latest (with_tokens b s) = Some (map_prod id (with_tokens b) (ex, s'))"
  proof (rule crawl_loop_induct [OF assms,
        where P = "\<lambda>s out. crawl_loop e latest (with_tokens b s)
                     = Some (map_prod id (with_tokens b) out)"])
    fix s out assume "crawl_step e latest s = Some (Inr out)"
    then have "crawl_step e latest (with_tokens b s)
        = Some (Inr (map_prod id (with_tokens b) out))"
      by (simp add: crawl_step_tokens)
    then show "crawl_loop e latest (with_tokens b s) = Some (map_prod id (with_tokens b) out)"
      by (rule crawl_loop_exit)
  next
    fix s s' out
    assume "crawl_step e latest s = Some (Inl s')"
      and ih: "crawl_loop e latest (with_tokens b s') = Some (map_prod id (with_tokens b) out)"
    then have "crawl_step e latest (with_tokens b s) = Some (Inl (with_tokens b s'))"
      by (simp add: crawl_step_tokens)
    then have "crawl_loop e latest (with_tokens b s) = crawl_loop e latest (with_tokens b s')"
      by (rule crawl_loop_continue)
    with ih show "crawl_loop e latest (with_tokens b s)
        = Some (map_prod id (with_tokens b) out)"
      by simp
  qed
  then show ?thesis by simp
qed

lemma with_tokens_back: "with_tokens (include_tokens (rjob s)) (with_tokens b s) = s"
  by (simp add: with_tokens_def)

lemma crawl_loop_tokens:
  "crawl_loop e latest (with_tokens b s) =
     map_option (map_prod id (with_tokens b)) (crawl_loop e latest s)"
proof (cases "crawl_loop e latest s")
  case (Some out)
  then show ?thesis by (cases out) (simp add: crawl_loop_tokens_Some)
next
  case None
  have "crawl_loop e latest (with_tokens b s) = None"
  proof (rule ccontr)
    assume "crawl_loop e latest (with_tokens b s) \<noteq> None"
    then obtain ex t where "crawl_loop e latest (with_tokens b s) = Some (ex, t)" by auto
    from crawl_loop_tokens_Some [OF this, of "include_tokens (rjob s)"] None
    show False by (simp add: with_tokens_back)
  qed
  with None show ?thesis by simp
qed

lemma flag_variant_refl: "flag_variant b result_id st st st"
  by (simp add: flag_variant_def)

lemma publish_flag_variant:
  "flag_variant b result_id st (publish result_id (res\<lparr>r_include_tokens := b\<rparr>) st)
     (publish result_id res st)"
  unfolding flag_variant_def by blast

lemma token_txs_data_empty:
  "token_seen_hashes j = [] \<Longrightarrow> token_txs_data e j = Inr None"
  by (simp add: token_txs_data_def)

lemma finalize_tokens:
  assumes "token_seen_hashes j = []" and "finalize e result_id latest j st = (j', st')"
  shows "\<exists>st_b. finalize e result_id latest (j\<lparr>include_tokens := b\<rparr>) st
                  = (j'\<lparr>include_tokens := b\<rparr>, st_b)
               \<and> flag_variant b result_id st st_b st'"
proof (cases "sorted_txs e (map snd (seen_hashes j))")
  case (Inl x)
  with assms show ?thesis
    by (auto simp: finalize_def job_error_def fail_job_def flag_variant_refl)
next
  case (Inr txs)
  let ?res = "\<lparr>eth_txs = txs, r_address = address j, r_start_block = start_block j,
      r_latest_block = latest, eth_total = int (length txs),
      r_coverage_start = (if segments j = [] then start_block j else sg_start (hd (segments j))),
      r_coverage_end = (if segments j = [] then latest else sg_end (last (segments j))),
      r_segments = segments j, r_include_tokens = include_tokens j, token_txs = None\<rparr>"
  have tk: "token_txs_data e (j\<lparr>coverage_end := c\<rparr>) = Inr None"
    "token_txs_data e (j\<lparr>include_tokens := b, coverage_end := c\<rparr>) = Inr None" for c
    using assms(1) by (simp_all add: token_txs_data_def)
  from assms Inr have st': "st' = publish result_id ?res st"
    and j': "j' = j\<lparr>coverage_end :=
                 Some (if segments j = [] then latest else sg_end (last (segments j))),
               running := False, done_flag := True, rid := Some result_id,
               eth_total_unique := int (length txs)\<rparr>"
    by (auto simp: finalize_def Let_def tk)
  have "finalize e result_id latest (j\<lparr>include_tokens := b\<rparr>) st
          = (j'\<lparr>include_tokens := b\<rparr>, publish result_id (?res\<lparr>r_include_tokens := b\<rparr>) st)"
    using Inr by (simp add: finalize_def Let_def tk j')
  moreover have "flag_variant b result_id st
      (publish result_id (?res\<lparr>r_include_tokens := b\<rparr>) st) st'"
    unfolding st' by (rule publish_flag_variant)
  ultimately show ?thesis by blast
qed

lemma after_loop_tokens:
  assumes "token_seen_hashes j = []" and "after_loop e result_id latest st ex j = (j', st')"
  shows "\<exists>st_b. after_loop e result_id latest st ex (j\<lparr>include_tokens := b\<rparr>)
                  = (j'\<lparr>include_tokens := b\<rparr>, st_b)
               \<and> flag_variant b result_id st st_b st'"
proof (cases "ex = Exhausted \<or> ex = BudgetStop")
  case True
  with assms(2) have "finalize e result_id latest j st = (j', st')"
    by (auto simp: after_loop_def)
  from finalize_tokens [OF assms(1) this, of b] True show ?thesis
    by (auto simp: after_loop_def)
next
  case False
  with assms(2) show ?thesis
    by (cases ex) (auto simp: after_loop_def job_error_def fail_job_def flag_variant_refl)
qed

lemma start_state_tokens:
  "start_state (j\<lparr>include_tokens := b\<rparr>) latest w = with_tokens b (start_state j latest w)"
  by (simp add: start_state_def initial_state_def with_tokens_def)

text \<open>
  Claim C8. A created job starts with an empty \<open>token_seen_hashes\<close>, and no line of a run
  writes it (or the token preview): the job comes out with the accumulator it went in
  with; the only requests a run sends are the \<^verbatim>\<open>txlist\<close> pages of the window drain. For a
  job whose accumulator is empty:
  \<^item> when the loop ends or is stopped by the page budget and sorting raises nothing, the
    result published has no token list (\<open>None\<close>), whatever \<^verbatim>\<open>include_tokens\<close> says; in
    every other case nothing is published;
  \<^item> setting \<^verbatim>\<open>include_tokens\<close> to \<open>b\<close> changes nothing in the run but that entry of the
    job and of the result it publishes: the run ends (or does not end) the same way,
    with the same requests, the same job otherwise, and the same registries, but for
    that entry of the published result.
\<close>

theorem token_accumulator_never_filled:
  "token_seen_hashes (new_job addr sb it ps mp) = []
   \<and> (run_job e result_id j st w = Some (ex, j', st', w') \<longrightarrow>
        token_seen_hashes j' = token_seen_hashes j \<and> token_preview j' = token_preview j
        \<and> (token_seen_hashes j = [] \<longrightarrow>
             (ex = Exhausted \<or> ex = BudgetStop \<longrightarrow>
                (case sorted_txs e (map snd (seen_hashes j')) of
                   Inl x \<Rightarrow> st' = st
                 | Inr txs \<Rightarrow>
                     (\<exists>res. st' = publish result_id res st \<and> eth_txs res = txs
                            \<and> token_txs res = None)))
             \<and> (ex \<noteq> Exhausted \<and> ex \<noteq> BudgetStop \<longrightarrow> st' = st)))
   \<and> (token_seen_hashes j = [] \<longrightarrow>
        (case run_job e result_id j st w of
           None \<Rightarrow> run_job e result_id (j\<lparr>include_tokens := b\<rparr>) st w = None
         | Some (ex, j', st', w') \<Rightarrow>
             (\<exists>st_b. run_job e result_id (j\<lparr>include_tokens := b\<rparr>) st w
                        = Some (ex, j'\<lparr>include_tokens := b\<rparr>, st_b, w')
                    \<and> flag_variant b result_id st st_b st')))"
proof (intro conjI)
  show "token_seen_hashes (new_job addr sb it ps mp) = []"
    by (simp add: new_job_def)
next
  show "run_job e result_id j st w = Some (ex, j', st', w') \<longrightarrow>
        token_seen_hashes j' = token_seen_hashes j \<and> token_preview j' = token_preview j
        \<and> (token_seen_hashes j = [] \<longrightarrow>
             (ex = Exhausted \<or> ex = BudgetStop \<longrightarrow>
                (case sorted_txs e (map snd (seen_hashes j')) of
                   Inl x \<Rightarrow> st' = st
                 | Inr txs \<Rightarrow>
                     (\<exists>res. st' = publish result_id res st \<and> eth_txs res = txs
                            \<and> token_txs res = None)))
             \<and> (ex \<noteq> Exhausted \<and> ex \<noteq> BudgetStop \<longrightarrow> st' = st))"
  proof (rule impI)
    assume run: "run_job e result_id j st w = Some (ex, j', st', w')"
    from run_job_kept [OF run] have keep:
      "token_seen_hashes j' = token_seen_hashes j" "token_preview j' = token_preview j"
      by (simp_all add: job_frame_def)
    have pub: "(ex = Exhausted \<or> ex = BudgetStop \<longrightarrow>
                (case sorted_txs e (map snd (seen_hashes j')) of
                   Inl x \<Rightarrow> st' = st
                 | Inr txs \<Rightarrow>
                     (\<exists>res. st' = publish result_id res st \<and> eth_txs res = txs
                            \<and> token_txs res = None)))
             \<and> (ex \<noteq> Exhausted \<and> ex \<noteq> BudgetStop \<longrightarrow> st' = st)"
      if empty: "token_seen_hashes j = []"
      using run
    proof (cases rule: run_job_cases)
      case (no_tip x)
      then show ?thesis by simp
    next
      case (looped latest s)
      from keep empty have tk: "token_txs_data e j' = Inr None"
        by (simp add: token_txs_data_empty)
      show ?thesis
      proof (cases "ex = Exhausted \<or> ex = BudgetStop")
        case True
        with looped(3) have "finalize e result_id latest (rjob s) st = (j', st')"
          by (auto simp: after_loop_def)
        from finalize_outcome [OF this] tk True show ?thesis
          by (auto split: sum.splits)
      next
        case False
        with looped(3) show ?thesis by (cases ex) (auto simp: after_loop_def)
      qed
    qed
    with keep show "token_seen_hashes j' = token_seen_hashes j \<and> token_preview j' = token_preview j
        \<and> (token_seen_hashes j = [] \<longrightarrow>
             (ex = Exhausted \<or> ex = BudgetStop \<longrightarrow>
                (case sorted_txs e (map snd (seen_hashes j')) of
                   Inl x \<Rightarrow> st' = st
                 | Inr txs \<Rightarrow>
                     (\<exists>res. st' = publish result_id res st \<and> eth_txs res = txs
                            \<and> token_txs res = None)))
             \<and> (ex \<noteq> Exhausted \<and> ex \<noteq> BudgetStop \<longrightarrow> st' = st))"
      by blast
  qed
next
  let ?jb = "j\<lparr>include_tokens := b\<rparr>"
  show "token_seen_hashes j = [] \<longrightarrow>
        (case run_job e result_id j st w of
           None \<Rightarrow> run_job e result_id ?jb st w = None
         | Some (ex, j', st', w') \<Rightarrow>
             (\<exists>st_b. run_job e result_id ?jb st w = Some (ex, j'\<lparr>include_tokens := b\<rparr>, st_b, w')
                    \<and> flag_variant b result_id st st_b st'))"
  proof (rule impI)
    assume empty: "token_seen_hashes j = []"
    show "case run_job e result_id j st w of
           None \<Rightarrow> run_job e result_id ?jb st w = None
         | Some (ex, j', st', w') \<Rightarrow>
             (\<exists>st_b. run_job e result_id ?jb st w = Some (ex, j'\<lparr>include_tokens := b\<rparr>, st_b, w')
                    \<and> flag_variant b result_id st st_b st')"
    proof (cases "get_latest_block e")
      case (Inl x)
      then show ?thesis
        by (simp add: run_job_def Let_def job_error_def fail_job_def flag_variant_refl)
    next
      case (Inr latest)
      have loop: "crawl_loop e latest (start_state ?jb latest w) =
          map_option (map_prod id (with_tokens b)) (crawl_loop e latest (start_state j latest w))"
        by (simp add: start_state_tokens crawl_loop_tokens)
      show ?thesis
      proof (cases "crawl_loop e latest (start_state j latest w)")
        case None
        with Inr loop show ?thesis by (simp add: run_job_def Let_def)
      next
        case (Some out)
        obtain ex s where out: "out = (ex, s)" by (cases out)
        obtain j' st' where al: "after_loop e result_id latest st ex (rjob s) = (j', st')"
          by (cases "after_loop e result_id latest st ex (rjob s)")
        from crawl_loop_kept [of e latest "start_state j latest w" ex s] Some out empty
        have e: "token_seen_hashes (rjob s) = []"
          by (simp add: step_kept_def job_frame_def start_state_def initial_state_def)
        from after_loop_tokens [OF e al, of b] obtain st_b where
          alb: "after_loop e result_id latest st ex ((rjob s)\<lparr>include_tokens := b\<rparr>)
                 = (j'\<lparr>include_tokens := b\<rparr>, st_b)"
          and fv: "flag_variant b result_id st st_b st'"
          by blast
        from Inr Some out al have r: "run_job e result_id j st w = Some (ex, j', st', wld s)"
          by (simp add: run_job_def Let_def)
        from Inr Some out loop alb
        have rb: "run_job e result_id ?jb st w
                   = Some (ex, j'\<lparr>include_tokens := b\<rparr>, st_b, wld s)"
          by (simp add: run_job_def Let_def)
        from r rb fv show ?thesis by auto
      qed
    qed
  qed
qed

theorem token_accumulator_never_filled_witness:
  "final_exit (run_job demo_env ''r1'' (demo_job\<lparr>include_tokens := True\<rparr>) empty_store world0)
     = Some Exhausted
   \<and> map_option token_seen_hashes
       (final_job (run_job demo_env ''r1'' (demo_job\<lparr>include_tokens := True\<rparr>) empty_store world0))
     = Some []
   \<and> map_option include_tokens
       (final_job (run_job demo_env ''r1'' (demo_job\<lparr>include_tokens := True\<rparr>) empty_store world0))
     = Some True
   \<and> published ''r1'' (run_job demo_env ''r1'' (demo_job\<lparr>include_tokens := True\<rparr>)
                          empty_store world0)
     = Some (demo_result\<lparr>r_include_tokens := True\<rparr>)
   \<and> token_txs (demo_result\<lparr>r_include_tokens := True\<rparr>) = None"
proof -
  let ?st = "publish ''r1'' demo_result empty_store"
  obtain j w where r: "run_job demo_env ''r1'' demo_job empty_store world0
        = Some (Exhausted, j, ?st, w)"
    and t: "token_seen_hashes j = []"
    using demo_run_value [of empty_store] unfolding demo_run_def by blast
  have e: "token_seen_hashes demo_job = []" by (simp add: demo_job_def new_job_def)
  from token_accumulator_never_filled [where e = demo_env and result_id = "''r1''"
      and j = demo_job and st = empty_store and w = world0 and b = True,
      THEN conjunct2, THEN conjunct2, THEN mp, OF e] r
  obtain st_b where rb:
    "run_job demo_env ''r1'' (demo_job\<lparr>include_tokens := True\<rparr>) empty_store world0
       = Some (Exhausted, j\<lparr>include_tokens := True\<rparr>, st_b, w)"
    and fv: "flag_variant True ''r1'' empty_store st_b ?st"
    by auto
  have c: "RESULTS_CACHE (publish ''r1'' res empty_store) ''r1'' = Some res" for res
    by (simp add: publish_def empty_store_def Let_def CACHE_SIZE_LIMIT_def)
  have ne: "?st \<noteq> empty_store"
    using c [of demo_result] by (auto simp: empty_store_def)
  from fv ne obtain res where eq: "?st = publish ''r1'' res empty_store"
    and sb: "st_b = publish ''r1'' (res\<lparr>r_include_tokens := True\<rparr>) empty_store"
    unfolding flag_variant_def by blast
  from eq have "RESULTS_CACHE ?st ''r1'' = RESULTS_CACHE (publish ''r1'' res empty_store) ''r1''"
    by (rule arg_cong)
  then have "Some demo_result = Some res" unfolding c .
  then have "res = demo_result" by simp
  then have "RESULTS_CACHE st_b ''r1'' = Some (demo_result\<lparr>r_include_tokens := True\<rparr>)"
    unfolding sb c by simp
  then show ?thesis
    using t by (simp add: rb final_exit_def final_job_def published_def demo_result_def)
qed

end
